theory Spec2Isabelle
  imports Main "HOL-Library.Word"
begin

unbundle bit_operations_syntax

section \<open>rtpsend: machine types\<close>

text \<open>
  The embedding follows \<^verbatim>\<open>rtpsend.c\<close>. Integers of the source keep their widths:
  \<^verbatim>\<open>u_int\<close> and \<^verbatim>\<open>uint32_t\<close> are 32-bit words, \<^verbatim>\<open>unsigned long\<close> is a 64-bit word (an LP64
  platform), a \<^verbatim>\<open>char\<close> of the packet buffer is an 8-bit word.
\<close>

type_synonym byte = "8 word"
type_synonym u16 = "16 word"
type_synonym u32 = "32 word"
type_synonym u64 = "64 word"

section \<open>usec2ntp\<close>

text \<open>
  \<^verbatim>\<open>static u_int usec2ntp(u_int usec)\<close>: the fraction of a second, in units of
  \<open>2\<^sup>-\<^sup>3\<^sup>2\<close> s, computed in 32-bit unsigned arithmetic.
\<close>

definition usec2ntp :: "u32 \<Rightarrow> u32" where
  "usec2ntp usec =
     (let t = drop_bit 5 (usec * 1825)
      in push_bit 12 usec + push_bit 8 usec - t)"

lemma uint_drop_bit_5: "uint (drop_bit 5 (w :: u32)) = uint w div 32"
proof -
  have "uint w mod 4294967296 = uint w"
    using uint_lt2p [of w] by simp
  then show ?thesis
    by (simp only: unsigned_drop_bit_eq) (simp add: drop_bit_eq_div take_bit_eq_mod)
qed

lemma usec2ntp_uint:
  "uint (usec2ntp usec) =
     (uint usec * 4096 + uint usec * 256 - ((uint usec * 1825) mod 2 ^ 32) div 32) mod 2 ^ 32"
proof -
  have t: "uint (drop_bit 5 (usec * 1825)) = ((uint usec * 1825) mod 2 ^ 32) div 32"
    by (simp only: uint_drop_bit_5) (simp add: uint_word_ariths)
  have "usec2ntp usec = usec * 4096 + usec * 256 - drop_bit 5 (usec * 1825)"
    by (simp add: usec2ntp_def push_bit_eq_mult)
  then have "uint (usec2ntp usec) =
      (uint (usec * 4096 + usec * 256) - uint (drop_bit 5 (usec * 1825))) mod 2 ^ 32"
    by (simp add: uint_word_ariths)
  also have "\<dots> =
      (uint usec * 4096 + uint usec * 256 - uint (drop_bit 5 (usec * 1825))) mod 2 ^ 32"
    by (simp add: uint_word_ariths mod_simps)
  finally show ?thesis by (simp only: t)
qed

lemma usec2ntp_exact:
  assumes "uint usec < 1000000"
  shows "uint (usec2ntp usec) = uint usec * 4352 - (uint usec * 1825) div 32"
proof -
  let ?u = "uint usec"
  have u0: "0 \<le> ?u" by simp
  have small: "?u * 1825 < 2 ^ 32" using assms by simp
  have m: "(?u * 1825) mod 2 ^ 32 = ?u * 1825" using u0 small by simp
  have s: "?u * 4096 + ?u * 256 = ?u * 4352" by simp
  have lo: "0 \<le> ?u * 4352 - (?u * 1825) div 32" using u0 by linarith
  have hi: "?u * 4352 - (?u * 1825) div 32 < 2 ^ 32" using assms u0 by simp
  have "uint (usec2ntp usec) = (?u * 4352 - (?u * 1825) div 32) mod 2 ^ 32"
    by (simp only: usec2ntp_uint m s)
  also have "\<dots> = ?u * 4352 - (?u * 1825) div 32"
    using lo hi by (rule mod_pos_pos_trivial)
  finally show ?thesis .
qed

lemma ntp_error_lower:
  "0 \<le> (u :: int) \<Longrightarrow> 32 * q \<le> u * 1825
   \<Longrightarrow> 0 \<le> 1000000 * (u * 4352 - q) - 4294967296 * u"
  by (simp add: algebra_simps)

lemma ntp_error_upper:
  "0 \<le> (u :: int) \<Longrightarrow> u < 1000000 \<Longrightarrow> u * 1825 < 32 * q + 32
   \<Longrightarrow> 1000000 * (u * 4352 - q) - 4294967296 * u < 1455000000"
  by (simp add: algebra_simps)

lemma usec2ntp_error:
  assumes "uint usec < 1000000"
  shows "0 \<le> 1000000 * uint (usec2ntp usec) - 4294967296 * uint usec
       \<and> 1000000 * uint (usec2ntp usec) - 4294967296 * uint usec < 1455000000"
proof -
  let ?u = "uint usec"
  have u0: "0 \<le> ?u" by simp
  have e: "uint (usec2ntp usec) = ?u * 4352 - (?u * 1825) div 32"
    by (rule usec2ntp_exact [OF assms])
  define q where "q = (?u * 1825) div 32"
  have q1: "32 * q \<le> ?u * 1825" unfolding q_def by simp
  have q2: "?u * 1825 < 32 * q + 32" unfolding q_def
    using div_mult_mod_eq [of "?u * 1825" 32] pos_mod_bound [of 32 "?u * 1825"] by linarith
  have "0 \<le> 1000000 * (?u * 4352 - q) - 4294967296 * ?u"
    using u0 q1 by (rule ntp_error_lower)
  moreover have "1000000 * (?u * 4352 - q) - 4294967296 * ?u < 1455000000"
    using u0 assms q2 by (rule ntp_error_upper)
  ultimately show ?thesis
    unfolding e q_def [symmetric] by simp
qed

text \<open>
  C9 (as amended). For every \<open>usec\<close> in \<open>[0, 10\<^sup>6)\<close> the 32-bit result of \<open>usec2ntp\<close> is
  \<open>((usec << 12) + (usec << 8) - ((usec * 1825) >> 5)) mod 2\<^sup>3\<^sup>2\<close>; the wrapped value is the
  unwrapped one, \<open>4352 * usec - (1825 * usec) div 32\<close>; it is never below the exact
  fraction \<open>usec * 2\<^sup>3\<^sup>2 / 10\<^sup>6\<close> and exceeds it by less than 1455 units of \<open>2\<^sup>-\<^sup>3\<^sup>2\<close> s, an
  absolute error below \<open>3.4 * 10\<^sup>-\<^sup>7\<close> s. (The inequalities are multiplied by \<open>10\<^sup>6\<close>.)
\<close>

theorem usec2ntp_conversion:
  assumes "uint usec < 1000000"
  shows "uint (usec2ntp usec) =
           (uint usec * 2 ^ 12 + uint usec * 2 ^ 8 - (uint usec * 1825) div 2 ^ 5) mod 2 ^ 32
       \<and> uint (usec2ntp usec) = 4352 * uint usec - (1825 * uint usec) div 32
       \<and> 0 \<le> 10 ^ 6 * uint (usec2ntp usec) - 2 ^ 32 * uint usec
       \<and> 10 ^ 6 * uint (usec2ntp usec) - 2 ^ 32 * uint usec < 1455 * 10 ^ 6"
proof -
  let ?u = "uint usec"
  have u0: "0 \<le> ?u" by simp
  have m: "(?u * 1825) mod 2 ^ 32 = ?u * 1825" using u0 assms by simp
  have "uint (usec2ntp usec) = (?u * 4096 + ?u * 256 - (?u * 1825) div 32) mod 2 ^ 32"
    by (simp only: usec2ntp_uint m)
  moreover have "uint (usec2ntp usec) = 4352 * ?u - (1825 * ?u) div 32"
    using usec2ntp_exact [OF assms] by (simp add: mult.commute)
  ultimately show ?thesis
    using usec2ntp_error [OF assms] by simp
qed

theorem usec2ntp_conversion_witness:
  "uint (usec2ntp 999999) = 4294964456
   \<and> 0 \<le> 10 ^ 6 * uint (usec2ntp 999999) - 2 ^ 32 * (999999 :: int)
   \<and> 10 ^ 6 * uint (usec2ntp 999999) - 2 ^ 32 * (999999 :: int) < 1455 * 10 ^ 6"
  using usec2ntp_conversion [of 999999] by simp

text \<open>
  The relative error is not bounded by \<open>3 * 10\<^sup>-\<^sup>7\<close>: one microsecond is converted to
  4295, the exact fraction is 4294.967296, and
  \<open>10\<^sup>7 * |10\<^sup>6 * 4295 - 2\<^sup>3\<^sup>2 * 1| > 3 * (2\<^sup>3\<^sup>2 * 1)\<close>.
\<close>

theorem usec2ntp_relative_error_counterexample:
  "uint (1 :: u32) < 1000000
   \<and> \<not> (10 ^ 7 * \<bar>10 ^ 6 * uint (usec2ntp 1) - 2 ^ 32 * uint (1 :: u32)\<bar>
          \<le> 3 * (2 ^ 32 * uint (1 :: u32)))"
  by (simp add: usec2ntp_def)

section \<open>Outcomes\<close>

text \<open>
  A run of a function of the program either returns, or ends the process with
  \<^verbatim>\<open>exit(code)\<close> after printing a diagnostic to \<^verbatim>\<open>stderr\<close>, or leaves the behaviour the
  C language defines (an access outside an array, through a null pointer, or to bytes
  nothing has written). The last two are values of the type \<open>abort\<close>; a function that
  can end so returns \<open>abort + 'a\<close>.
\<close>

datatype abort =
    Exit nat string
  | Undefined

definition thn :: "abort + 'a \<Rightarrow> ('a \<Rightarrow> abort + 'b) \<Rightarrow> abort + 'b" where
  "thn m f = (case m of Inl a \<Rightarrow> Inl a | Inr x \<Rightarrow> f x)"

lemma thn_simps [simp]:
  "thn (Inl a) f = Inl a"
  "thn (Inr x) f = f x"
  by (simp_all add: thn_def)

lemma thn_cong [fundef_cong]:
  "m = m' \<Longrightarrow> (\<And>x. m' = Inr x \<Longrightarrow> f x = f' x) \<Longrightarrow> thn m f = thn m' f'"
  by (cases m') (simp_all add: thn_def)

lemma thn_eq_Inr_iff: "thn m f = Inr y \<longleftrightarrow> (\<exists>x. m = Inr x \<and> f x = Inr y)"
  by (cases m) simp_all

section \<open>The C library, as far as the program uses it\<close>

text \<open>
  A \<open>string\<close> stands for the bytes of a C string before its terminating NUL. The
  functions below follow the C standard in the \<^verbatim>\<open>"C"\<close> locale.
\<close>

definition isspace :: "char \<Rightarrow> bool" where
  "isspace c = (c = CHR '' '' \<or> c = CHR 0x09 \<or> c = CHR 0x0A \<or> c = CHR 0x0B
                \<or> c = CHR 0x0C \<or> c = CHR 0x0D)"

definition isdigit :: "char \<Rightarrow> bool" where
  "isdigit c = (48 \<le> (of_char c :: nat) \<and> (of_char c :: nat) \<le> 57)"

definition tolower :: "char \<Rightarrow> char" where
  "tolower c = (if 65 \<le> (of_char c :: nat) \<and> (of_char c :: nat) \<le> 90
                then char_of ((of_char c :: nat) + 32) else c)"

text \<open>\<^verbatim>\<open>strcasecmp(a, b) == 0\<close>\<close>

definition strcasecmp_eq :: "string \<Rightarrow> string \<Rightarrow> bool" where
  "strcasecmp_eq a b = (map tolower a = map tolower b)"

text \<open>\<^verbatim>\<open>strchr(s, c)\<close>: the index of the first \<open>c\<close> in \<open>s\<close>, if there is one.\<close>

definition strchr :: "string \<Rightarrow> char \<Rightarrow> nat option" where
  "strchr s c = (if c \<in> set s then Some (length (takeWhile (\<lambda>x. x \<noteq> c) s)) else None)"

text \<open>The value of a digit or letter in \<^verbatim>\<open>strtol\<close>; 36 for any other character.\<close>

definition digit_value :: "char \<Rightarrow> nat" where
  "digit_value c =
     (let n = (of_char c :: nat)
      in if 48 \<le> n \<and> n \<le> 57 then n - 48
         else if 97 \<le> n \<and> n \<le> 122 then n - 87
         else if 65 \<le> n \<and> n \<le> 90 then n - 55
         else 36)"

fun scan_digits :: "nat \<Rightarrow> nat \<Rightarrow> string \<Rightarrow> nat" where
  "scan_digits b acc [] = acc"
| "scan_digits b acc (c # cs) =
     (if digit_value c < b then scan_digits b (acc * b + digit_value c) cs else acc)"

text \<open>
  The subject sequence of \<^verbatim>\<open>strtol\<close> and \<^verbatim>\<open>strtoul\<close>: white space, an optional sign, an
  optional \<^verbatim>\<open>0x\<close> (base 16, or base 0) that a hexadecimal digit follows, and digits of the
  base; base 0 is octal after a leading \<^verbatim>\<open>0\<close> and decimal otherwise. The result is the
  sign and the magnitude (0 when there is no digit).
\<close>

definition strto :: "nat \<Rightarrow> string \<Rightarrow> bool \<times> nat" where
  "strto base s =
     (let s1 = dropWhile isspace s;
          neg = (s1 \<noteq> [] \<and> hd s1 = CHR ''-'');
          s2 = (if s1 \<noteq> [] \<and> (hd s1 = CHR ''-'' \<or> hd s1 = CHR ''+'') then tl s1 else s1);
          hex_prefix = ((base = 0 \<or> base = 16) \<and> length s2 \<ge> 3 \<and> hd s2 = CHR ''0''
                        \<and> (s2 ! 1 = CHR ''x'' \<or> s2 ! 1 = CHR ''X'') \<and> digit_value (s2 ! 2) < 16);
          b = (if hex_prefix then 16
               else if base = 0 then (if s2 \<noteq> [] \<and> hd s2 = CHR ''0'' then 8 else 10)
               else base);
          s3 = (if hex_prefix then drop 2 s2 else s2)
      in (neg, scan_digits b 0 s3))"

text \<open>\<^verbatim>\<open>strtoul(s, NULL, base)\<close>, an \<^verbatim>\<open>unsigned long\<close>: \<^verbatim>\<open>ULONG_MAX\<close> on overflow.\<close>

definition strtoul :: "string \<Rightarrow> nat \<Rightarrow> u64" where
  "strtoul s base =
     (case strto base s of (neg, m) \<Rightarrow>
        if m \<ge> 2 ^ 64 then - 1 else if neg then - of_nat m else of_nat m)"

text \<open>\<^verbatim>\<open>strtol(s, NULL, base)\<close>, a \<^verbatim>\<open>long\<close>: \<^verbatim>\<open>LONG_MIN\<close> or \<^verbatim>\<open>LONG_MAX\<close> on overflow.\<close>

definition strtol :: "string \<Rightarrow> nat \<Rightarrow> int" where
  "strtol s base =
     (case strto base s of (neg, m) \<Rightarrow>
        if neg then (if m > 2 ^ 63 then - (2 ^ 63) else - int m)
        else (if m \<ge> 2 ^ 63 then 2 ^ 63 - 1 else int m))"

text \<open>\<^verbatim>\<open>atoi(s)\<close>: \<^verbatim>\<open>(int)strtol(s, NULL, 10)\<close>, the low 32 bits read as signed.\<close>

definition atoi :: "string \<Rightarrow> int" where
  "atoi s = sint (word_of_int (strtol s 10) :: u32)"

section \<open>The parse tree\<close>

text \<open>
  \<^verbatim>\<open>node_t\<close>, with the \<^verbatim>\<open>next\<close> pointer read as the list the node stands in: a null \<^verbatim>\<open>type\<close>
  or \<^verbatim>\<open>string\<close> is \<open>None\<close>, a null \<^verbatim>\<open>list\<close> is \<open>[]\<close> (\<^verbatim>\<open>parse\<close> returns a null pointer exactly
  when it made no node).
\<close>

datatype node = Node (type: "string option") (num: u64) (string: "string option")
  (list: "node list")

definition TMP_SIZE :: nat where
  "TMP_SIZE = 1024"

text \<open>
  The end of a parameter/value pair in \<^verbatim>\<open>parse\<close>: the node made from the \<open>c > 0\<close>
  characters in \<^verbatim>\<open>tmp\<close>. With an empty value (\<^verbatim>\<open>name=\<close>) the source measures and copies
  the string behind the terminator of \<^verbatim>\<open>tmp\<close>, bytes this pair has not written.
\<close>

definition leaf :: "string \<Rightarrow> abort + node" where
  "leaf tmp =
     (case strchr tmp CHR ''='' of
        None \<Rightarrow> Inr (Node (Some tmp) 0 None [])
      | Some e \<Rightarrow>
          (let v = drop (e + 1) tmp; t = take e tmp
           in if v \<noteq> [] \<and> isdigit (hd v) then Inr (Node (Some t) (strtoul v 0) None [])
              else if v = [] then Inl Undefined
              else Inr (Node (Some t) 0 (Some (butlast (tl v))) [])))"

text \<open>
  \<^verbatim>\<open>parse\<close>: the loop over the text, with the locals \<^verbatim>\<open>string\<close>, \<^verbatim>\<open>level\<close> and the first \<open>c\<close>
  characters of \<^verbatim>\<open>tmp\<close>; the nodes are returned in the order they are appended.
  \<^verbatim>\<open>tmp\<close> has \<open>TMP_SIZE\<close> bytes: \<^verbatim>\<open>tmp[c]\<close> is written only for \<open>c < TMP_SIZE\<close>.
\<close>

function parse_loop :: "bool \<Rightarrow> int \<Rightarrow> string \<Rightarrow> string \<Rightarrow> abort + node list" where
  "parse_loop str level tmp [] = Inr []"
| "parse_loop str level tmp (s # ss) =
     (if str then
        (if length tmp < TMP_SIZE
         then parse_loop (s \<noteq> CHR 0x22) level (tmp @ [s]) ss
         else Inl Undefined)
      else if s = CHR ''('' then
        (if level > 0 then
           (if length tmp < TMP_SIZE
            then parse_loop False (level + 1) (tmp @ [s]) ss
            else Inl Undefined)
         else parse_loop False (level + 1) [] ss)
      else if s = CHR '')'' then
        (if level - 1 = 0 then
           (if length tmp < TMP_SIZE then
              thn (parse_loop False 0 [] tmp) (\<lambda>l.
              thn (parse_loop False 0 [] ss) (\<lambda>ns.
              Inr (Node None 0 None l # ns)))
            else Inl Undefined)
         else
           (if length tmp < TMP_SIZE
            then parse_loop False (level - 1) (tmp @ [s]) ss
            else Inl Undefined))
      else if s = CHR 0x22 then
        (if length tmp < TMP_SIZE
         then parse_loop True level (tmp @ [s]) ss
         else Inl Undefined)
      else if level \<ge> 1 then
        (if length tmp < TMP_SIZE
         then parse_loop False level (tmp @ [s]) ss
         else Inl Undefined)
      else if isspace s then
        (if length tmp < TMP_SIZE then
           (if tmp \<noteq> [] then
              thn (leaf tmp) (\<lambda>n.
              thn (parse_loop False level [] ss) (\<lambda>ns.
              Inr (n # ns)))
            else parse_loop False level [] ss)
         else Inl Undefined)
      else
        (if length tmp < TMP_SIZE
         then parse_loop False level (tmp @ [s]) ss
         else Inl Undefined))"
  by pat_completeness auto
termination
  by (relation "measures [\<lambda>(str, level, tmp, text). length tmp + length text,
                          \<lambda>(str, level, tmp, text). length text]") auto

definition parse :: "string \<Rightarrow> abort + node list" where
  "parse text = parse_loop False 0 [] text"

text \<open>
  \<^verbatim>\<open>strstr(s, pat)\<close>: the index of the first occurrence of \<open>pat\<close> in \<open>s\<close>.
\<close>

fun strstr :: "string \<Rightarrow> string \<Rightarrow> nat option" where
  "strstr [] pat = (if pat = [] then Some 0 else None)"
| "strstr (c # cs) pat =
     (if take (length pat) (c # cs) = pat then Some 0 else map_option Suc (strstr cs pat))"

text \<open>
  \<^verbatim>\<open>strtok(text, " ")\<close> called until it returns null: the non-empty runs of characters
  other than the space, in order. The first argument holds the run read so far.
\<close>

fun strtok_words :: "string \<Rightarrow> string \<Rightarrow> string list" where
  "strtok_words w [] = (if w = [] then [] else [w])"
| "strtok_words w (c # cs) =
     (if c = CHR '' '' then (if w = [] then strtok_words [] cs else w # strtok_words [] cs)
      else strtok_words (w @ [c]) cs)"

section \<open>The packet buffer\<close>

text \<open>
  \<^verbatim>\<open>packet.data\<close>, the \<^verbatim>\<open>char data[1500]\<close> of \<^verbatim>\<open>send_handler\<close> that every serializer writes
  through a \<^verbatim>\<open>char *packet\<close>: a byte for each offset from its start. The array is static,
  so a packet is written over what the packets before it left there. An access is
  defined for the offsets \<open>0 \<le> i < PACKET_SIZE\<close> only.
\<close>

type_synonym mem = "int \<Rightarrow> byte"

definition PACKET_SIZE :: int where
  "PACKET_SIZE = 1500"

definition poke :: "mem \<Rightarrow> int \<Rightarrow> byte \<Rightarrow> abort + mem" where
  "poke m i b = (if 0 \<le> i \<and> i < PACKET_SIZE then Inr (m(i := b)) else Inl Undefined)"

definition peek :: "mem \<Rightarrow> int \<Rightarrow> abort + byte" where
  "peek m i = (if 0 \<le> i \<and> i < PACKET_SIZE then Inr (m i) else Inl Undefined)"

text \<open>Storing \<^verbatim>\<open>htons(v)\<close> and \<^verbatim>\<open>htonl(v)\<close>: the most significant byte first.\<close>

definition store16_be :: "mem \<Rightarrow> int \<Rightarrow> u16 \<Rightarrow> abort + mem" where
  "store16_be m i v =
     thn (poke m i (ucast (drop_bit 8 v))) (\<lambda>m.
     poke m (i + 1) (ucast v))"

definition store32_be :: "mem \<Rightarrow> int \<Rightarrow> u32 \<Rightarrow> abort + mem" where
  "store32_be m i v =
     thn (poke m i (ucast (drop_bit 24 v))) (\<lambda>m.
     thn (poke m (i + 1) (ucast (drop_bit 16 v))) (\<lambda>m.
     thn (poke m (i + 2) (ucast (drop_bit 8 v))) (\<lambda>m.
     poke m (i + 3) (ucast v))))"

text \<open>
  Storing a \<^verbatim>\<open>uint32_t\<close> as the host holds it: most significant byte first on a
  big-endian host, last on a little-endian one.
\<close>

definition store32_host :: "bool \<Rightarrow> mem \<Rightarrow> int \<Rightarrow> u32 \<Rightarrow> abort + mem" where
  "store32_host big_endian m i v =
     (if big_endian then store32_be m i v
      else
        thn (poke m i (ucast v)) (\<lambda>m.
        thn (poke m (i + 1) (ucast (drop_bit 8 v))) (\<lambda>m.
        thn (poke m (i + 2) (ucast (drop_bit 16 v))) (\<lambda>m.
        poke m (i + 3) (ucast (drop_bit 24 v))))))"

definition load16_be :: "mem \<Rightarrow> int \<Rightarrow> u16" where
  "load16_be m i = push_bit 8 (ucast (m i)) OR ucast (m (i + 1))"

definition load32_be :: "mem \<Rightarrow> int \<Rightarrow> u32" where
  "load32_be m i =
     push_bit 24 (ucast (m i)) OR push_bit 16 (ucast (m (i + 1)))
     OR push_bit 8 (ucast (m (i + 2))) OR ucast (m (i + 3))"

definition load32_host :: "bool \<Rightarrow> mem \<Rightarrow> int \<Rightarrow> u32" where
  "load32_host big_endian m i =
     (if big_endian then load32_be m i
      else push_bit 24 (ucast (m (i + 3))) OR push_bit 16 (ucast (m (i + 2)))
           OR push_bit 8 (ucast (m (i + 1))) OR ucast (m i))"

text \<open>\<^verbatim>\<open>memset(packet + i, 0, n)\<close>\<close>

fun memset0 :: "mem \<Rightarrow> int \<Rightarrow> nat \<Rightarrow> abort + mem" where
  "memset0 m i 0 = Inr m"
| "memset0 m i (Suc n) = thn (poke m i 0) (\<lambda>m. memset0 m (i + 1) n)"

text \<open>
  A bit-field of a header byte: \<open>width\<close> bits, the lowest at bit \<open>shift\<close>. An assignment
  keeps the low \<open>width\<close> bits of the value and the other bits of the byte.
\<close>

definition get_field :: "nat \<Rightarrow> nat \<Rightarrow> byte \<Rightarrow> byte" where
  "get_field shift width b = drop_bit shift b AND mask width"

definition set_field :: "nat \<Rightarrow> nat \<Rightarrow> byte \<Rightarrow> byte \<Rightarrow> byte" where
  "set_field shift width v b =
     (b AND NOT (push_bit shift (mask width))) OR push_bit shift (v AND mask width)"

section \<open>hex\<close>

text \<open>
  \<^verbatim>\<open>hex(text, buffer)\<close>: \<open>nib\<close> is the first nibble when \<^verbatim>\<open>nibble == 1\<close>, \<open>buf\<close> the offset of
  \<^verbatim>\<open>buffer\<close> in the packet. \<^verbatim>\<open>strtol(byte, NULL, 16)\<close> is stored as a \<^verbatim>\<open>char\<close>, its low 8 bits.
\<close>

fun hex_loop :: "string \<Rightarrow> char option \<Rightarrow> mem \<Rightarrow> int \<Rightarrow> int \<Rightarrow> abort + (int \<times> mem)" where
  "hex_loop [] nib m buf len = Inr (len, m)"
| "hex_loop (s # ss) nib m buf len =
     (if isspace s then hex_loop ss nib m buf len
      else
        (case nib of
           None \<Rightarrow> hex_loop ss (Some s) m buf len
         | Some h \<Rightarrow>
             thn (poke m (buf + len) (word_of_int (strtol [h, s] 16))) (\<lambda>m.
             hex_loop ss None m buf (len + 1))))"

definition hex :: "string \<Rightarrow> mem \<Rightarrow> int \<Rightarrow> abort + (int \<times> mem)" where
  "hex text m buf =
     (if 0 \<le> buf \<and> buf \<le> PACKET_SIZE then hex_loop text None m buf 0 else Inl Undefined)"

section \<open>The RTP serializer\<close>

text \<open>
  \<^verbatim>\<open>parse_uint(word)\<close>: the value, and the parameter name that \<^verbatim>\<open>word\<close> becomes.
\<close>

definition parse_uint :: "string \<Rightarrow> u32 \<times> string" where
  "parse_uint word =
     (case strchr word CHR ''='' of
        Some e \<Rightarrow> (ucast (strtoul (drop (e + 1) word) 0), take e word)
      | None \<Rightarrow> (0, []))"

text \<open>
  The C string at \<^verbatim>\<open>&word[i]\<close> after \<^verbatim>\<open>parse_uint\<close> has put a NUL in place of the first
  \<^verbatim>\<open>=\<close> of the token: it ends at that NUL when \<open>i\<close> lies before it, and at the end of the
  token otherwise.
\<close>

definition word_from :: "nat \<Rightarrow> string \<Rightarrow> string" where
  "word_from i word =
     (case strchr word CHR ''='' of
        Some e \<Rightarrow> (if i \<le> e then take (e - i) (drop i word) else drop i word)
      | None \<Rightarrow> [])"

text \<open>
  Modelled from the spec: \<^verbatim>\<open>rtp.h\<close> (\<^verbatim>\<open>rtp_hdr_t\<close>, \<^verbatim>\<open>rtp_hdr_ext_t\<close>, \<^verbatim>\<open>RTP_VERSION\<close>), which is
  not among the sources. The fixed header is 12 bytes,
  \<open>V(2)|P(1)|X(1)|CC(4)|M(1)|PT(7)|SeqNum(16)|Timestamp(32)|SSRC(32)\<close>, the first field in
  the high bits of the first byte; the CSRC list \<^verbatim>\<open>csrc[]\<close> follows at byte 12, and
  \<^verbatim>\<open>sizeof(rtp_hdr_t)\<close> counts the fixed header and one CSRC slot. The extension header
  is the 16-bit \<^verbatim>\<open>ext_type\<close> followed by the 16-bit \<^verbatim>\<open>len\<close>.
\<close>

definition RTP_VERSION :: byte where
  "RTP_VERSION = 2"

definition sizeof_rtp_hdr_t :: nat where
  "sizeof_rtp_hdr_t = 16"

definition sizeof_rtp_hdr_ext_t :: int where
  "sizeof_rtp_hdr_ext_t = 4"

text \<open>The value of an \<^verbatim>\<open>int\<close> that holds the low 32 bits of \<open>x\<close>.\<close>

definition int32 :: "int \<Rightarrow> int" where
  "int32 x = sint (word_of_int x :: u32)"

text \<open>The locals of \<^verbatim>\<open>rtp\<close> that outlive one token, and the packet.\<close>

record rtp_locals =
  packet :: mem
  pl :: int
  ext_pl :: int
  cc :: int
  length' :: int

text \<open>\<^verbatim>\<open>h->cc\<close>, read from the packet.\<close>

definition h_cc :: "mem \<Rightarrow> int" where
  "h_cc m = uint (get_field 0 4 (m 0))"

text \<open>
  One turn of the \<^verbatim>\<open>while\<close> loop of \<^verbatim>\<open>rtp\<close>, for the token \<open>word\<close>. \<^verbatim>\<open>h->csrc[k]\<close> is
  defined for \<open>k \<ge> 0\<close>; the value is stored without \<^verbatim>\<open>htonl\<close>.
\<close>

definition rtp_word :: "bool \<Rightarrow> string \<Rightarrow> rtp_locals \<Rightarrow> abort + rtp_locals" where
  "rtp_word big_endian word l =
     (let val = fst (parse_uint word);
          key = snd (parse_uint word);
          m = packet l
      in
        if key = ''ts'' then
          thn (store32_be m 4 val) (\<lambda>m. Inr (l\<lparr>packet := m\<rparr>))
        else if key = ''seq'' then
          thn (store16_be m 2 (ucast val)) (\<lambda>m. Inr (l\<lparr>packet := m\<rparr>))
        else if key = ''pt'' then
          Inr (l\<lparr>packet := m(1 := set_field 0 7 (ucast val) (m 1))\<rparr>)
        else if key = ''ssrc'' then
          thn (store32_be m 8 val) (\<lambda>m. Inr (l\<lparr>packet := m\<rparr>))
        else if key = ''p'' then
          Inr (l\<lparr>packet := m(0 := set_field 5 1 (if val \<noteq> 0 then 1 else 0) (m 0))\<rparr>)
        else if key = ''m'' then
          Inr (l\<lparr>packet := m(1 := set_field 7 1 (ucast val) (m 1))\<rparr>)
        else if key = ''x'' then
          Inr (l\<lparr>packet := m(0 := set_field 4 1 (ucast val) (m 0))\<rparr>)
        else if key = ''v'' then
          Inr (l\<lparr>packet := m(0 := set_field 6 2 (ucast val) (m 0))\<rparr>)
        else if key = ''cc'' then
          Inr (l\<lparr>packet := m(0 := set_field 0 4 (ucast val) (m 0))\<rparr>)
        else if take 4 key = ''csrc'' then
          (let k = atoi (word_from 5 word)
           in if k < 0 then Inl Undefined
              else
                thn (store32_host big_endian m (12 + 4 * k) val) (\<lambda>m.
                Inr (l\<lparr>packet := m, cc := (if k > cc l then k else cc l)\<rparr>)))
        else if key = ''ext_type'' then
          thn (store16_be m (12 + h_cc m * 4) (ucast val)) (\<lambda>m.
          Inr (l\<lparr>packet := m, ext_pl := int32 (ext_pl l + sizeof_rtp_hdr_ext_t)\<rparr>))
        else if key = ''ext_len'' then
          thn (store16_be m (12 + h_cc m * 4 + 2) (ucast val)) (\<lambda>m.
          Inr (l\<lparr>packet := m, ext_pl := int32 (ext_pl l + uint (val * 4))\<rparr>))
        else if key = ''ext_data'' then
          thn (hex (word_from 9 word) m (12 + h_cc m * 4 + 4)) (\<lambda>(dummy, m).
          Inr (l\<lparr>packet := m\<rparr>))
        else if key = ''data'' then
          thn (hex (word_from 5 word) m (12 + h_cc m * 4 + ext_pl l)) (\<lambda>(n, m).
          Inr (l\<lparr>packet := m, pl := n\<rparr>))
        else if key = ''len'' then
          Inr (l\<lparr>length' := int32 (uint val)\<rparr>)
        else Inr l)"

fun rtp_words :: "bool \<Rightarrow> string list \<Rightarrow> rtp_locals \<Rightarrow> abort + rtp_locals" where
  "rtp_words big_endian [] l = Inr l"
| "rtp_words big_endian (word # ws) l =
     thn (rtp_word big_endian word l) (\<lambda>l. rtp_words big_endian ws l)"

text \<open>
  What follows the loop: the default \<^verbatim>\<open>cc\<close> and the default length, an \<^verbatim>\<open>int\<close> sum that
  is defined when it does not overflow.
\<close>

definition rtp_finish :: "rtp_locals \<Rightarrow> abort + (int \<times> mem)" where
  "rtp_finish l =
     (let m = packet l;
          m = (if h_cc m = 0 then m(0 := set_field 0 4 (word_of_int (cc l)) (m 0)) else m);
          total' = 12 + h_cc m * 4 + pl l + ext_pl l
      in if length' l = 0 then
           (if - (2 ^ 31) \<le> total' \<and> total' < 2 ^ 31 then Inr (total', m) else Inl Undefined)
         else Inr (length' l, m))"

text \<open>
  \<^verbatim>\<open>rtp(text, packet)\<close>: the returned length and the packet. \<open>big_endian\<close> tells the byte
  order of the host.
\<close>

definition rtp :: "bool \<Rightarrow> string \<Rightarrow> mem \<Rightarrow> abort + (int \<times> mem)" where
  "rtp big_endian text m =
     thn (memset0 m 0 sizeof_rtp_hdr_t) (\<lambda>m.
     thn (rtp_words big_endian (strtok_words [] text)
            \<lparr>packet = m(0 := set_field 6 2 RTP_VERSION (m 0)),
             pl = 0, ext_pl = 0, cc = 0, length' = 0\<rparr>)
       rtp_finish)"

section \<open>The RTCP serializers\<close>

text \<open>
  Modelled from the spec: \<^verbatim>\<open>rtp.h\<close> (\<^verbatim>\<open>rtcp_t\<close>, \<^verbatim>\<open>rtcp_common_t\<close>, \<^verbatim>\<open>rtcp_rr_t\<close>,
  \<^verbatim>\<open>rtcp_sdes_item_t\<close>, \<^verbatim>\<open>rtcp_sdes_type_t\<close>, the packet types and \<^verbatim>\<open>RTCP_SET_LOST\<close>), which
  is not among the sources. The common header is 4 bytes,
  \<open>V(2)|P(1)|count(5)|PT(8)|length(16)\<close>; SR is 200, RR 201, SDES 202, BYE 203; an SR
  continues with the SSRC and the sender info (NTP msw, NTP lsw, RTP timestamp, packet
  count, octet count), an RR with the SSRC; a report block is the 24 bytes
  \<open>ssrc(32)|fraction(8)|lost(24)|last_seq(32)|jitter(32)|lsr(32)|dlsr(32)\<close>; an SDES item
  is \<open>type(8)|length(8)|text\<close> with the item types \<open>end=0\<close>, \<open>cname=1\<close>, \<open>name=2\<close>,
  \<open>email=3\<close>, \<open>phone=4\<close>, \<open>loc=5\<close>, \<open>tool=6\<close>, \<open>note=7\<close>, \<open>priv=8\<close>.
\<close>

definition RTCP_SR :: byte where "RTCP_SR = 200"
definition RTCP_RR :: byte where "RTCP_RR = 201"
definition RTCP_SDES :: byte where "RTCP_SDES = 202"
definition RTCP_BYE :: byte where "RTCP_BYE = 203"
definition RTCP_SDES_END :: byte where "RTCP_SDES_END = 0"

definition sizeof_rtcp_rr_t :: int where
  "sizeof_rtcp_rr_t = 24"

text \<open>A read-modify-write of one byte of the packet, as a bit-field assignment is.\<close>

definition upd_byte :: "mem \<Rightarrow> int \<Rightarrow> (byte \<Rightarrow> byte) \<Rightarrow> abort + mem" where
  "upd_byte m i f = thn (peek m i) (\<lambda>b. poke m i (f b))"

text \<open>\<^verbatim>\<open>strcpy(packet + i, s)\<close>: the characters and the terminating NUL.\<close>

fun strcpy :: "mem \<Rightarrow> int \<Rightarrow> string \<Rightarrow> abort + mem" where
  "strcpy m i [] = poke m i 0"
| "strcpy m i (c # cs) = thn (poke m i (of_char c)) (\<lambda>m. strcpy m (i + 1) cs)"

subsection \<open>SDES\<close>

text \<open>The table \<^verbatim>\<open>map\<close> of \<^verbatim>\<open>rtcp_sdes_item\<close>; its last entry \<^verbatim>\<open>{0,0}\<close> ends the search.\<close>

definition sdes_map :: "(string \<times> byte) list" where
  "sdes_map =
     [(''end'', 0), (''cname'', 1), (''name'', 2), (''email'', 3), (''phone'', 4),
      (''loc'', 5), (''tool'', 6), (''note'', 7), (''priv'', 8)]"

fun sdes_lookup :: "string \<Rightarrow> (string \<times> byte) list \<Rightarrow> byte" where
  "sdes_lookup t [] = 0"
| "sdes_lookup t ((name, ty) # rest) =
     (if strcasecmp_eq t name then ty else sdes_lookup t rest)"

text \<open>
  \<^verbatim>\<open>rtcp_sdes_item(type, string, packet)\<close>, with \<open>item\<close> the offset of \<^verbatim>\<open>packet\<close>. A leaf with
  a numeric value has a null \<^verbatim>\<open>string\<close>, which \<^verbatim>\<open>strlen\<close> dereferences. \<^verbatim>\<open>item->length\<close> is
  8 bits wide.
\<close>

definition rtcp_sdes_item :: "string \<Rightarrow> string option \<Rightarrow> mem \<Rightarrow> int \<Rightarrow> abort + (int \<times> mem)" where
  "rtcp_sdes_item t str m item =
     (case str of
        None \<Rightarrow> Inl Undefined
      | Some s \<Rightarrow>
          thn (poke m item (sdes_lookup t sdes_map)) (\<lambda>m.
          thn (poke m (item + 1) (of_nat (length s))) (\<lambda>m.
          thn (strcpy m (item + 2) s) (\<lambda>m.
          Inr (uint (of_nat (length s) :: byte) + 2, m)))))"

text \<open>
  The loop of \<^verbatim>\<open>rtcp_sdes(list, packet)\<close>: \<open>sdes\<close> is the offset of the chunk, and the moving
  \<^verbatim>\<open>packet\<close> pointer is at \<open>sdes + total'\<close>.
\<close>

fun rtcp_sdes_loop :: "node list \<Rightarrow> mem \<Rightarrow> int \<Rightarrow> int \<Rightarrow> abort + (int \<times> mem)" where
  "rtcp_sdes_loop [] m sdes total' = Inr (total', m)"
| "rtcp_sdes_loop (n # ns) m sdes total' =
     (case type n of
        Some t \<Rightarrow>
          if t = ''src'' then
            thn (store32_be m sdes (ucast (num n))) (\<lambda>m. rtcp_sdes_loop ns m sdes total')
          else
            thn (rtcp_sdes_item t (string n) m (sdes + total')) (\<lambda>(len, m).
            rtcp_sdes_loop ns m sdes (total' + len))
      | None \<Rightarrow> rtcp_sdes_loop ns m sdes total')"

definition rtcp_sdes :: "node list \<Rightarrow> mem \<Rightarrow> int \<Rightarrow> abort + (int \<times> mem)" where
  "rtcp_sdes l m sdes =
     thn (rtcp_sdes_loop l m sdes 4) (\<lambda>(total', m).
     thn (poke m (sdes + total') RTCP_SDES_END) (\<lambda>m.
     let len = (total' + 1 + 3) AND 0xfffc
     in if len < total' + 1 then Inl Undefined
        else thn (memset0 m (sdes + total') (nat (len - (total' + 1)))) (\<lambda>m. Inr (len, m))))"

subsection \<open>Report blocks and BYE\<close>

fun rtcp_rr_loop :: "node list \<Rightarrow> mem \<Rightarrow> int \<Rightarrow> abort + mem" where
  "rtcp_rr_loop [] m rr = Inr m"
| "rtcp_rr_loop (n # ns) m rr =
     (case type n of
        Some t \<Rightarrow>
          thn (if t = ''ssrc'' then store32_be m rr (ucast (num n))
               else if t = ''fraction'' then poke m (rr + 4) (ucast (num n * 256))
               else if t = ''lost'' then
                 thn (poke m (rr + 5) (ucast (drop_bit 16 (num n)))) (\<lambda>m.
                 thn (poke m (rr + 6) (ucast (drop_bit 8 (num n)))) (\<lambda>m.
                 poke m (rr + 7) (ucast (num n))))
               else if t = ''last_seq'' then store32_be m (rr + 8) (ucast (num n))
               else if t = ''jit'' then store32_be m (rr + 12) (ucast (num n))
               else if t = ''lsr'' then store32_be m (rr + 16) (ucast (num n))
               else if t = ''dlsr'' then store32_be m (rr + 20) (ucast (num n))
               else Inl (Exit 2 (''Invalid RTCP RR type '' @ t @ [CHR 0x0A])))
            (\<lambda>m. rtcp_rr_loop ns m rr)
      | None \<Rightarrow> rtcp_rr_loop ns m rr)"

definition rtcp_rr :: "node list \<Rightarrow> mem \<Rightarrow> int \<Rightarrow> abort + (int \<times> mem)" where
  "rtcp_rr l m rr = thn (rtcp_rr_loop l m rr) (\<lambda>m. Inr (sizeof_rtcp_rr_t, m))"

fun rtcp_bye_loop :: "node list \<Rightarrow> mem \<Rightarrow> int \<Rightarrow> abort + mem" where
  "rtcp_bye_loop [] m bye = Inr m"
| "rtcp_bye_loop (n # ns) m bye =
     (case type n of
        Some t \<Rightarrow>
          if t = ''ssrc'' then
            thn (store32_be m bye (ucast (num n))) (\<lambda>m. rtcp_bye_loop ns m bye)
          else rtcp_bye_loop ns m bye
      | None \<Rightarrow> rtcp_bye_loop ns m bye)"

definition rtcp_bye :: "node list \<Rightarrow> mem \<Rightarrow> int \<Rightarrow> abort + (int \<times> mem)" where
  "rtcp_bye l m bye = thn (rtcp_bye_loop l m bye) (\<lambda>m. Inr (4, m))"

subsection \<open>Records\<close>

text \<open>
  \<^verbatim>\<open>rtcp_write_sdes\<close>, \<^verbatim>\<open>rtcp_write_sr\<close>, \<^verbatim>\<open>rtcp_write_rr\<close> and \<^verbatim>\<open>rtcp_write_bye\<close> are four
  copies of one function. They differ in the packet type, in the name of the record
  (\<open>name\<close>), in the length of the header (the first value of \<^verbatim>\<open>total\<close>), in the leaves they
  take besides \<^verbatim>\<open>p\<close>, \<^verbatim>\<open>count\<close> and \<^verbatim>\<open>len\<close> (\<open>field\<close>, which is \<open>None\<close> for a name that is not
  one of them), in the function for a child list (\<open>part\<close>), and \<^verbatim>\<open>rtcp_write_sr\<close> fills the NTP
  time in before the loop. The copy they share is written once here; \<open>r\<close> is the offset
  of the record in the packet, where \<^verbatim>\<open>rtcp_t *r\<close> points, and the moving \<^verbatim>\<open>packet\<close> pointer
  is at \<open>r + total'\<close>. The names a copy compares \<^verbatim>\<open>n->type\<close> with are distinct, so the order
  of its comparisons does not matter.
\<close>

text \<open>The truncating division of C.\<close>

definition c_div :: "int \<Rightarrow> int \<Rightarrow> int" where
  "c_div a b = (if (a < 0) = (b < 0) then \<bar>a\<bar> div \<bar>b\<bar> else - (\<bar>a\<bar> div \<bar>b\<bar>))"

text \<open>The five assignments to \<^verbatim>\<open>r->common\<close> that open each copy.\<close>

definition rtcp_common_init :: "byte \<Rightarrow> mem \<Rightarrow> int \<Rightarrow> abort + mem" where
  "rtcp_common_init pt m r =
     thn (store16_be m (r + 2) 0) (\<lambda>m.
     thn (upd_byte m r (set_field 0 5 0)) (\<lambda>m.
     thn (upd_byte m r (set_field 6 2 RTP_VERSION)) (\<lambda>m.
     thn (poke m (r + 1) pt) (\<lambda>m.
     upd_byte m r (set_field 5 1 0)))))"

text \<open>
  A leaf of a record whose name is not the name of the record: one of the leaves of its
  own that the copy takes, or \<^verbatim>\<open>p\<close>, \<^verbatim>\<open>count\<close> or \<^verbatim>\<open>len\<close>, or else the fatal error.
\<close>

definition rtcp_leaf ::
  "(string \<Rightarrow> u64 \<Rightarrow> mem \<Rightarrow> int \<Rightarrow> (abort + mem) option)
   \<Rightarrow> string \<Rightarrow> u64 \<Rightarrow> mem \<Rightarrow> int \<Rightarrow> abort + mem" where
  "rtcp_leaf field t v m r =
     (case field t v m r of
        Some res \<Rightarrow> res
      | None \<Rightarrow>
          if t = ''p'' then upd_byte m r (set_field 5 1 (ucast v))
          else if t = ''count'' then upd_byte m r (set_field 0 5 (ucast v))
          else if t = ''len'' then store16_be m (r + 2) (ucast v)
          else Inl (Exit 2 (''Invalid RTCP type '' @ t @ [CHR 0x0A])))"

fun rtcp_write_loop ::
  "string \<Rightarrow> (string \<Rightarrow> u64 \<Rightarrow> mem \<Rightarrow> int \<Rightarrow> (abort + mem) option)
   \<Rightarrow> (node list \<Rightarrow> mem \<Rightarrow> int \<Rightarrow> abort + (int \<times> mem))
   \<Rightarrow> int \<Rightarrow> node list \<Rightarrow> int \<Rightarrow> int \<Rightarrow> mem \<Rightarrow> abort + (int \<times> int \<times> mem)" where
  "rtcp_write_loop name field part r [] total' count m = Inr (total', count, m)"
| "rtcp_write_loop name field part r (n # ns) total' count m =
     (case type n of
        Some t \<Rightarrow>
          if t = name then rtcp_write_loop name field part r ns total' count m
          else
            thn (rtcp_leaf field t (num n) m r)
              (\<lambda>m. rtcp_write_loop name field part r ns total' count m)
      | None \<Rightarrow>
          thn (part (list n) m (r + total')) (\<lambda>(len, m).
          rtcp_write_loop name field part r ns (total' + len) (count + 1) m))"

text \<open>\<^verbatim>\<open>/* if no length or count given, fill in */\<close>\<close>

definition rtcp_fill_in :: "int \<Rightarrow> int \<Rightarrow> int \<Rightarrow> mem \<Rightarrow> abort + (int \<times> mem)" where
  "rtcp_fill_in r total' count m =
     thn (peek m (r + 2)) (\<lambda>hi.
     thn (peek m (r + 3)) (\<lambda>lo.
     thn (if hi = 0 \<and> lo = 0 then store16_be m (r + 2) (word_of_int (c_div (total' - 4) 4))
          else Inr m) (\<lambda>m.
     thn (peek m r) (\<lambda>b.
     thn (if get_field 0 5 b = 0 then poke m r (set_field 0 5 (word_of_int count) b)
          else Inr m) (\<lambda>m.
     Inr (total', m))))))"

definition rtcp_write ::
  "byte \<Rightarrow> string \<Rightarrow> int \<Rightarrow> (mem \<Rightarrow> int \<Rightarrow> abort + mem)
   \<Rightarrow> (string \<Rightarrow> u64 \<Rightarrow> mem \<Rightarrow> int \<Rightarrow> (abort + mem) option)
   \<Rightarrow> (node list \<Rightarrow> mem \<Rightarrow> int \<Rightarrow> abort + (int \<times> mem))
   \<Rightarrow> node list \<Rightarrow> mem \<Rightarrow> int \<Rightarrow> abort + (int \<times> mem)" where
  "rtcp_write pt name hdr_len init field part l m r =
     thn (rtcp_common_init pt m r) (\<lambda>m.
     thn (init m r) (\<lambda>m.
     thn (rtcp_write_loop name field part r l hdr_len 0 m) (\<lambda>(total', count, m).
     rtcp_fill_in r total' count m)))"

definition RTCP_SDES_HDR_LEN :: int where "RTCP_SDES_HDR_LEN = 4"
definition RTCP_SR_HDR_LEN :: int where "RTCP_SR_HDR_LEN = 28"
definition RTCP_RR_HDR_LEN :: int where "RTCP_RR_HDR_LEN = 8"
definition RTCP_BYE_HDR_LEN :: int where "RTCP_BYE_HDR_LEN = 4"

definition GETTIMEOFDAY_TO_NTP_OFFSET :: int where
  "GETTIMEOFDAY_TO_NTP_OFFSET = 2208988800"

record timeval =
  tv_sec :: int
  tv_usec :: int

definition no_field :: "string \<Rightarrow> u64 \<Rightarrow> mem \<Rightarrow> int \<Rightarrow> (abort + mem) option" where
  "no_field t v m r = None"

definition rtcp_write_sdes :: "node list \<Rightarrow> mem \<Rightarrow> int \<Rightarrow> abort + (int \<times> mem)" where
  "rtcp_write_sdes =
     rtcp_write RTCP_SDES ''SDES'' RTCP_SDES_HDR_LEN (\<lambda>m r. Inr m) no_field rtcp_sdes"

text \<open>The leaves of an SR besides \<^verbatim>\<open>p\<close>, \<^verbatim>\<open>count\<close> and \<^verbatim>\<open>len\<close>: \<^verbatim>\<open>ntp\<close> sets \<^verbatim>\<open>ntp_sec\<close> only.\<close>

definition sr_field :: "string \<Rightarrow> u64 \<Rightarrow> mem \<Rightarrow> int \<Rightarrow> (abort + mem) option" where
  "sr_field t v m r =
     (if t = ''ssrc'' then Some (store32_be m (r + 4) (ucast v))
      else if t = ''ntp'' then Some (store32_be m (r + 8) (ucast v))
      else if t = ''ts'' then Some (store32_be m (r + 16) (ucast v))
      else if t = ''psent'' then Some (store32_be m (r + 20) (ucast v))
      else if t = ''osent'' then Some (store32_be m (r + 24) (ucast v))
      else None)"

text \<open>
  The two assignments of \<^verbatim>\<open>rtcp_write_sr\<close> before its loop; \<open>now\<close> is what \<^verbatim>\<open>gettimeofday\<close>
  returned.
\<close>

definition sr_init :: "timeval \<Rightarrow> mem \<Rightarrow> int \<Rightarrow> abort + mem" where
  "sr_init now m r =
     thn (store32_be m (r + 8) (word_of_int (tv_sec now + GETTIMEOFDAY_TO_NTP_OFFSET))) (\<lambda>m.
     store32_be m (r + 12) (usec2ntp (word_of_int (tv_usec now))))"

definition rtcp_write_sr :: "timeval \<Rightarrow> node list \<Rightarrow> mem \<Rightarrow> int \<Rightarrow> abort + (int \<times> mem)" where
  "rtcp_write_sr now =
     rtcp_write RTCP_SR ''SR'' RTCP_SR_HDR_LEN (sr_init now) sr_field rtcp_rr"

definition rr_field :: "string \<Rightarrow> u64 \<Rightarrow> mem \<Rightarrow> int \<Rightarrow> (abort + mem) option" where
  "rr_field t v m r =
     (if t = ''ssrc'' then Some (store32_be m (r + 4) (ucast v)) else None)"

definition rtcp_write_rr :: "node list \<Rightarrow> mem \<Rightarrow> int \<Rightarrow> abort + (int \<times> mem)" where
  "rtcp_write_rr =
     rtcp_write RTCP_RR ''RR'' RTCP_RR_HDR_LEN (\<lambda>m r. Inr m) rr_field rtcp_rr"

definition rtcp_write_bye :: "node list \<Rightarrow> mem \<Rightarrow> int \<Rightarrow> abort + (int \<times> mem)" where
  "rtcp_write_bye =
     rtcp_write RTCP_BYE ''BYE'' RTCP_BYE_HDR_LEN (\<lambda>m r. Inr m) no_field rtcp_bye"

definition rtcp_write_app :: "node list \<Rightarrow> mem \<Rightarrow> int \<Rightarrow> abort + (int \<times> mem)" where
  "rtcp_write_app l m r = Inr (0, m)"

subsection \<open>Compound packets\<close>

text \<open>
  \<^verbatim>\<open>rtcp_packet\<close>: the first node with a \<^verbatim>\<open>type\<close> that \<^verbatim>\<open>rtcp_map\<close> holds selects the function,
  which is given the whole list.
\<close>

fun rtcp_map :: "timeval \<Rightarrow> string \<Rightarrow> (node list \<Rightarrow> mem \<Rightarrow> int \<Rightarrow> abort + (int \<times> mem)) option"
  where
  "rtcp_map now t =
     (if t = ''SDES'' then Some rtcp_write_sdes
      else if t = ''RR'' then Some rtcp_write_rr
      else if t = ''SR'' then Some (rtcp_write_sr now)
      else if t = ''BYE'' then Some rtcp_write_bye
      else if t = ''APP'' then Some rtcp_write_app
      else None)"

fun rtcp_dispatch ::
  "timeval \<Rightarrow> node list \<Rightarrow> (node list \<Rightarrow> mem \<Rightarrow> int \<Rightarrow> abort + (int \<times> mem)) option" where
  "rtcp_dispatch now [] = None"
| "rtcp_dispatch now (n # ns) =
     (case type n of
        None \<Rightarrow> rtcp_dispatch now ns
      | Some t \<Rightarrow>
          (case rtcp_map now t of
             Some w \<Rightarrow> Some w
           | None \<Rightarrow> rtcp_dispatch now ns))"

definition rtcp_packet :: "timeval \<Rightarrow> node list \<Rightarrow> mem \<Rightarrow> int \<Rightarrow> abort + (int \<times> mem)" where
  "rtcp_packet now l m r =
     (case rtcp_dispatch now l of
        Some w \<Rightarrow> w l m r
      | None \<Rightarrow> Inl (Exit 2 (''No RTCP payload type'' @ [CHR 0x0A])))"

text \<open>
  The loop of \<^verbatim>\<open>rtcp\<close> over the nodes of the text. \<open>clock i\<close> is the time of day that the
  function for the \<open>i\<close>-th node reads, should it read it.
\<close>

fun rtcp_loop ::
  "(nat \<Rightarrow> timeval) \<Rightarrow> nat \<Rightarrow> node list \<Rightarrow> mem \<Rightarrow> int \<Rightarrow> abort + (int \<times> mem)" where
  "rtcp_loop clock i [] m total' = Inr (total', m)"
| "rtcp_loop clock i (n # ns) m total' =
     (if list n \<noteq> [] then
        thn (rtcp_packet (clock i) (list n) m total') (\<lambda>(len, m).
        rtcp_loop clock (Suc i) ns m (total' + len))
      else rtcp_loop clock (Suc i) ns m total')"

definition rtcp :: "(nat \<Rightarrow> timeval) \<Rightarrow> string \<Rightarrow> mem \<Rightarrow> abort + (int \<times> mem)" where
  "rtcp clock text m = thn (parse text) (\<lambda>node_list. rtcp_loop clock 0 node_list m 0)"

section \<open>generate\<close>

text \<open>
  The conversion \<^verbatim>\<open>%ld\<close> of \<^verbatim>\<open>sscanf\<close>: white space, an optional sign and at least one
  decimal digit; the value and the rest of the input.
\<close>

definition scan_ld :: "string \<Rightarrow> (int \<times> string) option" where
  "scan_ld s =
     (let s1 = dropWhile isspace s;
          sign = (if s1 \<noteq> [] \<and> (hd s1 = CHR ''-'' \<or> hd s1 = CHR ''+'') then [hd s1] else []);
          s2 = drop (length sign) s1;
          ds = takeWhile isdigit s2
      in if ds = [] then None else Some (strtol (sign @ ds) 10, dropWhile isdigit s2))"

text \<open>
  \<^verbatim>\<open>sscanf(text, "%ld.%ld %s", ...)\<close>: the three values when all three are converted, \<open>None\<close>
  when fewer are. \<^verbatim>\<open>type_name\<close> has 100 bytes.
\<close>

definition sscanf_line :: "string \<Rightarrow> abort + (int \<times> int \<times> string) option" where
  "sscanf_line text =
     (case scan_ld text of
        None \<Rightarrow> Inr None
      | Some (sec, r1) \<Rightarrow>
          if r1 = [] \<or> hd r1 \<noteq> CHR ''.'' then Inr None
          else
            (case scan_ld (tl r1) of
               None \<Rightarrow> Inr None
             | Some (usec, r2) \<Rightarrow>
                 (let r3 = dropWhile isspace r2;
                      type_name = takeWhile (\<lambda>c. \<not> isspace c) r3
                  in if type_name = [] then Inr None
                     else if length type_name \<ge> 100 then Inl Undefined
                     else Inr (Some (sec, usec, type_name)))))"

text \<open>
  \<^verbatim>\<open>generate(text, data, time, type)\<close>: the length, \<^verbatim>\<open>*time\<close>, \<^verbatim>\<open>*type\<close> and the packet. The echo
  of the line on \<^verbatim>\<open>stdout\<close> under \<^verbatim>\<open>-v\<close> is left out.
\<close>

definition generate ::
  "bool \<Rightarrow> (nat \<Rightarrow> timeval) \<Rightarrow> string \<Rightarrow> mem \<Rightarrow> abort + (int \<times> timeval \<times> int \<times> mem)" where
  "generate big_endian clock text data =
     thn (sscanf_line text) (\<lambda>conv.
       case conv of
         None \<Rightarrow> Inl (Exit 2 (''Line {'' @ text @ ''} is invalid.'' @ [CHR 0x0A]))
       | Some (sec, usec, type_name) \<Rightarrow>
           if type_name = ''RTP'' then
             (case strstr text ''RTP'' of
                None \<Rightarrow> Inl Undefined
              | Some i \<Rightarrow>
                  thn (rtp big_endian (drop (i + 3) text) data) (\<lambda>(len, m).
                  Inr (len, \<lparr>tv_sec = sec, tv_usec = usec\<rparr>, 0, m)))
           else if type_name = ''RTCP'' then
             (case strstr text ''RTCP'' of
                None \<Rightarrow> Inl Undefined
              | Some i \<Rightarrow>
                  thn (rtcp clock (drop (i + 4) text) data) (\<lambda>(len, m).
                  Inr (len, \<lparr>tv_sec = sec, tv_usec = usec\<rparr>, 1, m)))
           else Inl (Exit 2 (''Type '' @ type_name @ '' is not supported.'' @ [CHR 0x0A])))"

section \<open>Evaluation\<close>

text \<open>
  \<open>bytes m i n\<close> are the \<open>n\<close> bytes of the packet from offset \<open>i\<close>; \<open>sent\<close> is what
  \<^verbatim>\<open>send_handler\<close> passes to \<^verbatim>\<open>send\<close> for a generated packet: the index of the socket and
  the first \<^verbatim>\<open>packet.length\<close> bytes.
\<close>

fun bytes :: "mem \<Rightarrow> int \<Rightarrow> nat \<Rightarrow> byte list" where
  "bytes m i 0 = []"
| "bytes m i (Suc n) = m i # bytes m (i + 1) n"

definition sent :: "abort + (int \<times> timeval \<times> int \<times> mem) \<Rightarrow> (int \<times> byte list) option" where
  "sent r = (case r of Inl a \<Rightarrow> None | Inr (len, t, ty, m) \<Rightarrow> Some (ty, bytes m 0 (nat len)))"

lemma bytes_numeral [simp]:
  "bytes m i (numeral k) = m i # bytes m (i + 1) (pred_numeral k)"
  by (simp add: numeral_eq_Suc)

lemma memset0_numeral [simp]:
  "memset0 m i (numeral k) = thn (poke m i 0) (\<lambda>m. memset0 m (i + 1) (pred_numeral k))"
  by (simp add: numeral_eq_Suc)

lemmas clib_defs = isspace_def isdigit_def strchr_def digit_value_def strto_def strtoul_def
  strtol_def atoi_def scan_ld_def sscanf_line_def

lemmas mem_defs = poke_def peek_def PACKET_SIZE_def store16_be_def store32_be_def
  store32_host_def set_field_def get_field_def upd_byte_def mask_eq_exp_minus_1

lemmas rtp_defs = rtp_def rtp_word_def rtp_finish_def parse_uint_def word_from_def h_cc_def
  hex_def int32_def sizeof_rtp_hdr_t_def sizeof_rtp_hdr_ext_t_def RTP_VERSION_def

lemmas parse_defs = parse_def TMP_SIZE_def leaf_def

lemmas rtcp_defs = rtcp_def rtcp_packet_def rtcp_write_def rtcp_leaf_def rtcp_write_sdes_def
  rtcp_write_sr_def rtcp_write_rr_def rtcp_write_bye_def rtcp_write_app_def rtcp_fill_in_def
  rtcp_sdes_def rtcp_sdes_item_def rtcp_rr_def rtcp_bye_def no_field_def sr_field_def
  rr_field_def sr_init_def c_div_def sdes_map_def strcasecmp_eq_def tolower_def
  RTCP_SR_def RTCP_RR_def RTCP_SDES_def RTCP_BYE_def RTCP_SDES_END_def sizeof_rtcp_rr_t_def
  RTCP_SDES_HDR_LEN_def RTCP_SR_HDR_LEN_def RTCP_RR_HDR_LEN_def RTCP_BYE_HDR_LEN_def
  GETTIMEOFDAY_TO_NTP_OFFSET_def

text \<open>Two bytes are equal when their eight bits are.\<close>

lemma lt8_cases: "n < 8 \<Longrightarrow> n \<in> {0, 1, 2, 3, 4, 5, 6, 7 :: nat}"
  by (simp only: insert_iff empty_iff) arith

lemma byte_eqI:
  fixes a b :: byte
  assumes "bit a 0 = bit b 0" "bit a 1 = bit b 1" "bit a 2 = bit b 2" "bit a 3 = bit b 3"
    "bit a 4 = bit b 4" "bit a 5 = bit b 5" "bit a 6 = bit b 6" "bit a 7 = bit b 7"
  shows "a = b"
proof (rule bit_word_eqI)
  fix n assume "n < LENGTH(8)"
  then have "n < 8" by simp
  from lt8_cases [OF this] assms show "bit a n = bit b n" by auto
qed

lemma common_first_byte:
  "set_field 5 1 0 (set_field 6 2 RTP_VERSION (set_field 0 5 0 b)) = 0x80"
  unfolding set_field_def RTP_VERSION_def mask_eq_exp_minus_1
  by (rule byte_eqI) (simp_all add: bit_simps)

text \<open>
  The five assignments leave \<open>V=2\<close>, \<open>P=0\<close>, \<open>count=0\<close>, the packet type and the length 0
  in the four bytes of the common header, whatever the buffer held.
\<close>

lemma rtcp_common_init_eq:
  assumes "0 \<le> r" "r + 3 < PACKET_SIZE"
  shows "rtcp_common_init pt m r = Inr (m(r := 0x80, r + 1 := pt, r + 2 := 0, r + 3 := 0))"
proof -
  have "rtcp_common_init pt m r =
      Inr (m(r + 2 := 0, r + 3 := 0,
             r := set_field 5 1 0 (set_field 6 2 RTP_VERSION (set_field 0 5 0 (m r))),
             r + 1 := pt))"
    using assms
    by (auto simp: rtcp_common_init_def store16_be_def upd_byte_def poke_def peek_def fun_eq_iff)
  then show ?thesis
    using common_first_byte [of "m r"] by (auto simp: fun_eq_iff)
qed

section \<open>What the serializers leave unchanged\<close>

lemma poke_Inr: "poke m i b = Inr m' \<longleftrightarrow> 0 \<le> i \<and> i < PACKET_SIZE \<and> m' = m(i := b)"
  by (auto simp: poke_def)

lemma peek_Inr: "peek m i = Inr b \<longleftrightarrow> 0 \<le> i \<and> i < PACKET_SIZE \<and> b = m i"
  by (auto simp: peek_def)

lemma upd_byte_Inr:
  "upd_byte m i f = Inr m' \<longleftrightarrow> 0 \<le> i \<and> i < PACKET_SIZE \<and> m' = m(i := f (m i))"
  by (auto simp: upd_byte_def thn_eq_Inr_iff peek_Inr poke_Inr)

lemma store16_be_Inr:
  "store16_be m i v = Inr m' \<longleftrightarrow>
     0 \<le> i \<and> i + 1 < PACKET_SIZE \<and> m' = m(i := ucast (drop_bit 8 v), i + 1 := ucast v)"
  by (auto simp: store16_be_def thn_eq_Inr_iff poke_Inr)

lemma store32_be_Inr:
  "store32_be m i v = Inr m' \<longleftrightarrow>
     0 \<le> i \<and> i + 3 < PACKET_SIZE \<and>
     m' = m(i := ucast (drop_bit 24 v), i + 1 := ucast (drop_bit 16 v),
            i + 2 := ucast (drop_bit 8 v), i + 3 := ucast v)"
  by (auto simp: store32_be_def thn_eq_Inr_iff poke_Inr)

text \<open>\<open>keeps_below i m m'\<close>: the bytes before offset \<open>i\<close> are the same in \<open>m\<close> and \<open>m'\<close>.\<close>

definition keeps_below :: "int \<Rightarrow> mem \<Rightarrow> mem \<Rightarrow> bool" where
  "keeps_below i m m' = (\<forall>j. j < i \<longrightarrow> m' j = m j)"

lemma keeps_below_refl [simp]: "keeps_below i m m"
  by (simp add: keeps_below_def)

lemma keeps_below_trans:
  "keeps_below i m m1 \<Longrightarrow> keeps_below i' m1 m2 \<Longrightarrow> i \<le> i' \<Longrightarrow> keeps_below i m m2"
  by (auto simp: keeps_below_def)

lemma keeps_below_mono: "keeps_below i' m m' \<Longrightarrow> i \<le> i' \<Longrightarrow> keeps_below i m m'"
  by (auto simp: keeps_below_def)

lemma keeps_below_upd: "i \<le> j \<Longrightarrow> keeps_below i m (m(j := b))"
  by (auto simp: keeps_below_def)

lemma keeps_below_at: "keeps_below i m m' \<Longrightarrow> j < i \<Longrightarrow> m' j = m j"
  by (simp add: keeps_below_def)

lemma poke_below: "poke m i b = Inr m' \<Longrightarrow> keeps_below i m m'"
  by (auto simp: poke_Inr keeps_below_def)

lemma store16_be_below: "store16_be m i v = Inr m' \<Longrightarrow> keeps_below i m m'"
  by (auto simp: store16_be_Inr keeps_below_def)

lemma store32_be_below: "store32_be m i v = Inr m' \<Longrightarrow> keeps_below i m m'"
  by (auto simp: store32_be_Inr keeps_below_def)

lemma strcpy_below: "strcpy m i s = Inr m' \<Longrightarrow> keeps_below i m m'"
proof (induction s arbitrary: m i)
  case Nil
  then show ?case by (simp add: poke_below)
next
  case (Cons c cs)
  then obtain m1 where a: "poke m i (of_char c) = Inr m1" "strcpy m1 (i + 1) cs = Inr m'"
    by (auto simp: thn_eq_Inr_iff)
  from poke_below [OF a(1)] Cons.IH [OF a(2)] show ?case
    by (rule keeps_below_trans) simp
qed

lemma memset0_below: "memset0 m i n = Inr m' \<Longrightarrow> keeps_below i m m'"
proof (induction n arbitrary: m i)
  case 0
  then show ?case by simp
next
  case (Suc n)
  then obtain m1 where a: "poke m i 0 = Inr m1" "memset0 m1 (i + 1) n = Inr m'"
    by (auto simp: thn_eq_Inr_iff)
  from poke_below [OF a(1)] Suc.IH [OF a(2)] show ?case
    by (rule keeps_below_trans) simp
qed

lemma rtcp_sdes_item_props:
  assumes "rtcp_sdes_item t str m item = Inr (len, m')"
  shows "2 \<le> len \<and> keeps_below item m m'"
proof -
  from assms obtain s m1 m2 where a: "str = Some s"
    "poke m item (sdes_lookup t sdes_map) = Inr m1"
    "poke m1 (item + 1) (of_nat (length s)) = Inr m2"
    "strcpy m2 (item + 2) s = Inr m'" "len = uint (of_nat (length s) :: byte) + 2"
    by (auto simp: rtcp_sdes_item_def thn_eq_Inr_iff split: option.splits)
  have "keeps_below item m m2"
    using poke_below [OF a(2)] poke_below [OF a(3)] by (rule keeps_below_trans) simp
  then have "keeps_below item m m'"
    using strcpy_below [OF a(4)] by (rule keeps_below_trans) simp
  moreover have "2 \<le> len" using a(5) by simp
  ultimately show ?thesis by simp
qed

lemma rtcp_sdes_loop_props:
  "rtcp_sdes_loop l m sdes t0 = Inr (t1, m') \<Longrightarrow> 0 \<le> t0
   \<Longrightarrow> t0 \<le> t1 \<and> keeps_below sdes m m'"
proof (induction l arbitrary: m t0)
  case Nil
  then show ?case by simp
next
  case (Cons n ns)
  show ?case
  proof (cases "type n")
    case None
    with Cons show ?thesis by simp
  next
    case (Some t)
    show ?thesis
    proof (cases "t = ''src''")
      case True
      with Some Cons.prems obtain m1 where a:
        "store32_be m sdes (ucast (num n)) = Inr m1" "rtcp_sdes_loop ns m1 sdes t0 = Inr (t1, m')"
        by (auto simp: thn_eq_Inr_iff)
      from Cons.IH [OF a(2) Cons.prems(2)] store32_be_below [OF a(1)]
      show ?thesis by (auto intro: keeps_below_trans)
    next
      case False
      with Some Cons.prems obtain len m1 where a:
        "rtcp_sdes_item t (string n) m (sdes + t0) = Inr (len, m1)"
        "rtcp_sdes_loop ns m1 sdes (t0 + len) = Inr (t1, m')"
        by (auto simp: thn_eq_Inr_iff)
      from rtcp_sdes_item_props [OF a(1)] have b: "2 \<le> len" "keeps_below (sdes + t0) m m1"
        by simp_all
      from b(1) Cons.prems(2) have "0 \<le> t0 + len" by simp
      from Cons.IH [OF a(2) this] have c: "t0 + len \<le> t1" "keeps_below sdes m1 m'" by simp_all
      from b(2) Cons.prems(2) have "keeps_below sdes m m1" by (auto intro: keeps_below_mono)
      with c b(1) show ?thesis by (auto intro: keeps_below_trans)
    qed
  qed
qed

lemma and_fffc_dvd: "4 dvd ((x :: int) AND 0xfffc)"
proof -
  have "take_bit 2 (x AND 0xfffc) = take_bit 2 x AND take_bit 2 (0xfffc :: int)"
    by (rule take_bit_and)
  also have "take_bit 2 (0xfffc :: int) = 0" by (simp add: take_bit_eq_mod)
  finally have "(x AND 0xfffc) mod 4 = 0" by (simp add: take_bit_eq_mod)
  then show ?thesis by presburger
qed

lemma rtcp_sdes_props:
  assumes "rtcp_sdes l m sdes = Inr (len, m')"
  shows "0 \<le> len \<and> 4 dvd len \<and> keeps_below sdes m m'"
proof -
  from assms obtain t1 m1 m2 where a: "rtcp_sdes_loop l m sdes 4 = Inr (t1, m1)"
    "poke m1 (sdes + t1) RTCP_SDES_END = Inr m2"
    "len = (t1 + 1 + 3) AND 0xfffc" "\<not> len < t1 + 1"
    "memset0 m2 (sdes + t1) (nat (len - (t1 + 1))) = Inr m'"
    by (auto simp: rtcp_sdes_def thn_eq_Inr_iff Let_def split: if_splits)
  from rtcp_sdes_loop_props [OF a(1)] have b: "4 \<le> t1" "keeps_below sdes m m1" by simp_all
  have "keeps_below sdes m1 m2" using poke_below [OF a(2)] b(1) by (auto intro: keeps_below_mono)
  moreover have "keeps_below sdes m2 m'"
    using memset0_below [OF a(5)] b(1) by (auto intro: keeps_below_mono)
  ultimately have "keeps_below sdes m m'" using b(2) by (auto intro: keeps_below_trans)
  moreover have "4 dvd len" unfolding a(3) by (rule and_fffc_dvd)
  moreover have "0 \<le> len" unfolding a(3) by simp
  ultimately show ?thesis by simp
qed

lemma rtcp_rr_loop_below: "rtcp_rr_loop l m rr = Inr m' \<Longrightarrow> keeps_below rr m m'"
proof (induction l arbitrary: m)
  case Nil
  then show ?case by simp
next
  case (Cons n ns)
  show ?case
  proof (cases "type n")
    case None
    with Cons show ?thesis by simp
  next
    case (Some t)
    with Cons.prems obtain m1 where a: "rtcp_rr_loop ns m1 rr = Inr m'" and
      b: "(if t = ''ssrc'' then store32_be m rr (ucast (num n))
           else if t = ''fraction'' then poke m (rr + 4) (ucast (num n * 256))
           else if t = ''lost'' then
             thn (poke m (rr + 5) (ucast (drop_bit 16 (num n)))) (\<lambda>m.
             thn (poke m (rr + 6) (ucast (drop_bit 8 (num n)))) (\<lambda>m.
             poke m (rr + 7) (ucast (num n))))
           else if t = ''last_seq'' then store32_be m (rr + 8) (ucast (num n))
           else if t = ''jit'' then store32_be m (rr + 12) (ucast (num n))
           else if t = ''lsr'' then store32_be m (rr + 16) (ucast (num n))
           else if t = ''dlsr'' then store32_be m (rr + 20) (ucast (num n))
           else Inl (Exit 2 (''Invalid RTCP RR type '' @ t @ [CHR 0x0A]))) = Inr m1"
      by (auto simp: thn_eq_Inr_iff)
    from b have "keeps_below rr m m1"
      by (auto simp: thn_eq_Inr_iff poke_Inr store32_be_Inr keeps_below_def split: if_splits)
    with Cons.IH [OF a] show ?thesis by (auto intro: keeps_below_trans)
  qed
qed

lemma rtcp_rr_props:
  "rtcp_rr l m rr = Inr (len, m') \<Longrightarrow> len = 24 \<and> keeps_below rr m m'"
  by (auto simp: rtcp_rr_def thn_eq_Inr_iff sizeof_rtcp_rr_t_def dest: rtcp_rr_loop_below)

lemma rtcp_bye_loop_below: "rtcp_bye_loop l m bye = Inr m' \<Longrightarrow> keeps_below bye m m'"
proof (induction l arbitrary: m)
  case Nil
  then show ?case by simp
next
  case (Cons n ns)
  then show ?case
    by (cases "type n")
      (auto simp: thn_eq_Inr_iff split: if_splits dest!: store32_be_below intro: keeps_below_trans)
qed

lemma rtcp_bye_props:
  "rtcp_bye l m bye = Inr (len, m') \<Longrightarrow> len = 4 \<and> keeps_below bye m m'"
  by (auto simp: rtcp_bye_def thn_eq_Inr_iff dest: rtcp_bye_loop_below)

section \<open>Scenarios\<close>

text \<open>
  C5. For the script line
  \<^verbatim>\<open>0.0 RTP v=2 p=0 x=0 cc=0 m=0 pt=96 seq=1 ts=0 ssrc=0x11223344 data=AA\<close>, as the last line of
  a file without a newline or as \<^verbatim>\<open>fgets\<close> returns it with one, \<^verbatim>\<open>generate\<close> returns the
  length 13 and the type 0 (the data socket), and the packet starts with the 13 bytes
  \<^verbatim>\<open>80 60 00 01 00 00 00 00 11 22 33 44 AA\<close>, whatever the buffer held, on either byte
  order of the host.
\<close>

theorem scenario_rtp_packet:
  "(\<exists>m. generate big_endian clock
           ''0.0 RTP v=2 p=0 x=0 cc=0 m=0 pt=96 seq=1 ts=0 ssrc=0x11223344 data=AA'' data
         = Inr (13, \<lparr>tv_sec = 0, tv_usec = 0\<rparr>, 0, m)
       \<and> bytes m 0 13 =
           [0x80, 0x60, 0x00, 0x01, 0x00, 0x00, 0x00, 0x00, 0x11, 0x22, 0x33, 0x44, 0xAA])
   \<and> (\<exists>m. generate big_endian clock
           (''0.0 RTP v=2 p=0 x=0 cc=0 m=0 pt=96 seq=1 ts=0 ssrc=0x11223344 data=AA''
            @ [CHR 0x0A]) data
         = Inr (13, \<lparr>tv_sec = 0, tv_usec = 0\<rparr>, 0, m)
       \<and> bytes m 0 13 =
           [0x80, 0x60, 0x00, 0x01, 0x00, 0x00, 0x00, 0x00, 0x11, 0x22, 0x33, 0x44, 0xAA])"
  by (simp add: generate_def clib_defs mem_defs rtp_defs Let_def)

text \<open>
  C1 (as amended). For the script line \<^verbatim>\<open>0.0 RTCP (SDES (src=0xA cname="x"))\<close>, with or
  without the newline of \<^verbatim>\<open>fgets\<close>, \<^verbatim>\<open>generate\<close> returns the length 12 and the type 1 (the
  control socket); the packet starts with \<^verbatim>\<open>81 CA 00 02 | 00 00 00 0A\<close>, and the 16-bit
  length field of the record is 2.
\<close>

theorem scenario_sdes_packet:
  "(\<exists>m. generate big_endian clock ''0.0 RTCP (SDES (src=0xA cname=\"x\"))'' data
         = Inr (12, \<lparr>tv_sec = 0, tv_usec = 0\<rparr>, 1, m)
       \<and> bytes m 0 8 = [0x81, 0xCA, 0x00, 0x02, 0x00, 0x00, 0x00, 0x0A]
       \<and> load16_be m 2 = 2)
   \<and> (\<exists>m. generate big_endian clock
           (''0.0 RTCP (SDES (src=0xA cname=\"x\"))'' @ [CHR 0x0A]) data
         = Inr (12, \<lparr>tv_sec = 0, tv_usec = 0\<rparr>, 1, m)
       \<and> bytes m 0 8 = [0x81, 0xCA, 0x00, 0x02, 0x00, 0x00, 0x00, 0x0A]
       \<and> load16_be m 2 = 2)"
  by (simp add: generate_def clib_defs mem_defs rtcp_defs parse_defs rtcp_common_init_eq
      load16_be_def Let_def)

text \<open>
  On a buffer of zeros the line gives the 12 bytes
  \<^verbatim>\<open>81 CA 00 02 | 00 00 00 0A | 00 00 00 00\<close> on socket 1, not the 16 bytes
  \<^verbatim>\<open>81 CA 00 03 | 00 00 00 0A | 01 01 78 00 | 00 00 00 00\<close>.
\<close>

theorem scenario_sdes_packet_counterexample:
  "sent (generate False (\<lambda>i. \<lparr>tv_sec = 0, tv_usec = 0\<rparr>)
           ''0.0 RTCP (SDES (src=0xA cname=\"x\"))'' (\<lambda>i. 0))
     = Some (1, [0x81, 0xCA, 0x00, 0x02, 0x00, 0x00, 0x00, 0x0A, 0x00, 0x00, 0x00, 0x00])
   \<and> sent (generate False (\<lambda>i. \<lparr>tv_sec = 0, tv_usec = 0\<rparr>)
           ''0.0 RTCP (SDES (src=0xA cname=\"x\"))'' (\<lambda>i. 0))
     \<noteq> Some (1, [0x81, 0xCA, 0x00, 0x03, 0x00, 0x00, 0x00, 0x0A,
                 0x01, 0x01, 0x78, 0x00, 0x00, 0x00, 0x00, 0x00])"
  by (simp add: sent_def generate_def clib_defs mem_defs rtcp_defs parse_defs
      rtcp_common_init_eq Let_def)

section \<open>The loop that the four record serializers share\<close>

text \<open>
  What the shared loop needs of a function for a child list and of the leaves a copy
  takes: the first returns a length that is a multiple of 4 and writes at its offset or
  behind it, the second write behind the common header; neither \<^verbatim>\<open>len\<close> nor \<^verbatim>\<open>count\<close> is a
  leaf of a copy's own.
\<close>

definition part_ok :: "(node list \<Rightarrow> mem \<Rightarrow> int \<Rightarrow> abort + (int \<times> mem)) \<Rightarrow> bool" where
  "part_ok part =
     (\<forall>l m off len m'. part l m off = Inr (len, m')
        \<longrightarrow> 0 \<le> len \<and> 4 dvd len \<and> keeps_below off m m')"

definition field_ok :: "(string \<Rightarrow> u64 \<Rightarrow> mem \<Rightarrow> int \<Rightarrow> (abort + mem) option) \<Rightarrow> bool" where
  "field_ok field =
     ((\<forall>t v m r m'. field t v m r = Some (Inr m') \<longrightarrow> keeps_below (r + 4) m m')
      \<and> (\<forall>v m r. field ''len'' v m r = None \<and> field ''count'' v m r = None))"

lemma part_ok_sdes: "part_ok rtcp_sdes"
  unfolding part_ok_def using rtcp_sdes_props by blast

lemma part_ok_rr: "part_ok rtcp_rr"
  unfolding part_ok_def using rtcp_rr_props by fastforce

lemma part_ok_bye: "part_ok rtcp_bye"
  unfolding part_ok_def using rtcp_bye_props by fastforce

lemma field_ok_no: "field_ok no_field"
  by (simp add: field_ok_def no_field_def)

lemma field_ok_rr: "field_ok rr_field"
  by (auto simp: field_ok_def rr_field_def store32_be_Inr keeps_below_def)

lemma field_ok_sr: "field_ok sr_field"
  by (auto simp: field_ok_def sr_field_def store32_be_Inr keeps_below_def split: if_splits)

lemma get_count_set_p: "get_field 0 5 (set_field 5 1 v b) = get_field 0 5 b"
  unfolding set_field_def get_field_def mask_eq_exp_minus_1
  by (rule byte_eqI) (simp_all add: bit_simps)

lemma get_version_set_p: "get_field 6 2 (set_field 5 1 v b) = get_field 6 2 b"
  unfolding set_field_def get_field_def mask_eq_exp_minus_1
  by (rule byte_eqI) (simp_all add: bit_simps)

lemma get_version_set_count: "get_field 6 2 (set_field 0 5 v b) = get_field 6 2 b"
  unfolding set_field_def get_field_def mask_eq_exp_minus_1
  by (rule byte_eqI) (simp_all add: bit_simps)

lemma get_count_set_count: "get_field 0 5 (set_field 0 5 v b) = v AND 31"
  unfolding set_field_def get_field_def mask_eq_exp_minus_1
  by (rule byte_eqI) (simp_all add: bit_simps)

lemma set_count_zero:
  assumes "get_field 0 5 b = 0"
  shows "set_field 0 5 0 b = b"
proof -
  from assms have e: "bit (b AND 31) k = bit (0 :: byte) k" for k
    by (simp add: get_field_def mask_eq_exp_minus_1)
  have z: "\<not> bit b 0" "\<not> bit b 1" "\<not> bit b 2" "\<not> bit b 3" "\<not> bit b 4"
    using e [of 0] e [of 1] e [of 2] e [of 3] e [of 4] by (simp_all add: bit_simps)
  show ?thesis
    unfolding set_field_def mask_eq_exp_minus_1
    by (rule byte_eqI) (use z in \<open>simp_all add: bit_simps\<close>)
qed

lemmas field_simps' = get_count_set_p [unfolded One_nat_def] get_version_set_p [unfolded One_nat_def]

text \<open>What a leaf leaves of the common header.\<close>

lemma rtcp_leaf_props:
  assumes "field_ok field" "rtcp_leaf field t v m r = Inr m1"
  shows "m1 (r + 1) = m (r + 1) \<and> get_field 6 2 (m1 r) = get_field 6 2 (m r)
       \<and> (t \<noteq> ''len'' \<longrightarrow> m1 (r + 2) = m (r + 2) \<and> m1 (r + 3) = m (r + 3))
       \<and> (t \<noteq> ''count'' \<longrightarrow> get_field 0 5 (m1 r) = get_field 0 5 (m r))"
proof (cases "field t v m r")
  case (Some res)
  with assms(2) have "field t v m r = Some (Inr m1)" by (simp add: rtcp_leaf_def)
  with assms(1) have "keeps_below (r + 4) m m1" by (auto simp: field_ok_def)
  then show ?thesis by (simp add: keeps_below_def)
next
  case None
  with assms(2) show ?thesis
    by (auto simp: rtcp_leaf_def upd_byte_Inr store16_be_Inr field_simps'
        get_version_set_count split: if_splits)
qed

lemma rtcp_write_loop_props:
  assumes "part_ok part" "field_ok field"
  shows "rtcp_write_loop name field part r l t0 c0 m = Inr (t1, c1, m') \<Longrightarrow> 4 \<le> t0
    \<Longrightarrow> t0 \<le> t1 \<and> (4 dvd t0 \<longrightarrow> 4 dvd t1)
      \<and> c1 = c0 + int (length (filter (\<lambda>n. type n = None) l))
      \<and> m' (r + 1) = m (r + 1) \<and> get_field 6 2 (m' r) = get_field 6 2 (m r)
      \<and> ((\<forall>n \<in> set l. type n \<noteq> Some ''len'') \<longrightarrow> m' (r + 2) = m (r + 2) \<and> m' (r + 3) = m (r + 3))
      \<and> ((\<forall>n \<in> set l. type n \<noteq> Some ''count'')
          \<longrightarrow> get_field 0 5 (m' r) = get_field 0 5 (m r))"
proof (induction l arbitrary: t0 c0 m)
  case Nil
  then show ?case by simp
next
  case (Cons n ns)
  show ?case
  proof (cases "type n")
    case None
    with Cons.prems obtain len m1 where a: "part (list n) m (r + t0) = Inr (len, m1)"
      "rtcp_write_loop name field part r ns (t0 + len) (c0 + 1) m1 = Inr (t1, c1, m')"
      by (auto simp: thn_eq_Inr_iff)
    from assms(1) a(1) have b: "0 \<le> len" "4 dvd len" "keeps_below (r + t0) m m1"
      by (auto simp: part_ok_def)
    from b(3) Cons.prems(2) have c: "m1 r = m r" "m1 (r + 1) = m (r + 1)"
      "m1 (r + 2) = m (r + 2)" "m1 (r + 3) = m (r + 3)"
      by (simp_all add: keeps_below_def)
    from b(1) Cons.prems(2) have "4 \<le> t0 + len" by simp
    from Cons.IH [OF a(2) this] b c None show ?thesis by auto
  next
    case (Some t)
    show ?thesis
    proof (cases "t = name")
      case True
      with Some Cons.prems have "rtcp_write_loop name field part r ns t0 c0 m = Inr (t1, c1, m')"
        by simp
      from Cons.IH [OF this Cons.prems(2)] Some show ?thesis by auto
    next
      case False
      with Some Cons.prems obtain m1 where a: "rtcp_leaf field t (num n) m r = Inr m1"
        "rtcp_write_loop name field part r ns t0 c0 m1 = Inr (t1, c1, m')"
        by (auto simp: thn_eq_Inr_iff)
      from rtcp_leaf_props [OF assms(2) a(1)] Cons.IH [OF a(2) Cons.prems(2)] Some
      show ?thesis by auto
    qed
  qed
qed

lemma rtcp_common_init_Inr:
  "rtcp_common_init pt m r = Inr m1 \<longleftrightarrow>
     0 \<le> r \<and> r + 3 < PACKET_SIZE \<and> m1 = m(r := 0x80, r + 1 := pt, r + 2 := 0, r + 3 := 0)"
proof
  assume a: "rtcp_common_init pt m r = Inr m1"
  then have b: "0 \<le> r \<and> r + 3 < PACKET_SIZE"
    by (auto simp: rtcp_common_init_def thn_eq_Inr_iff store16_be_Inr upd_byte_Inr poke_Inr)
  with a rtcp_common_init_eq [of r pt m]
  show "0 \<le> r \<and> r + 3 < PACKET_SIZE \<and> m1 = m(r := 0x80, r + 1 := pt, r + 2 := 0, r + 3 := 0)"
    by simp
next
  assume "0 \<le> r \<and> r + 3 < PACKET_SIZE \<and> m1 = m(r := 0x80, r + 1 := pt, r + 2 := 0, r + 3 := 0)"
  then show "rtcp_common_init pt m r = Inr m1"
    by (simp add: rtcp_common_init_eq)
qed

lemma load16_be_stored:
  "push_bit 8 (ucast (ucast (drop_bit 8 v) :: byte) :: u16) OR ucast (ucast v :: byte) = (v :: u16)"
  by (rule bit_word_eqI) (auto simp: bit_simps)

lemma c_div_4: "0 \<le> a \<Longrightarrow> c_div a 4 = a div 4"
  by (simp add: c_div_def)

lemma version_of_0x80: "get_field 6 2 (0x80 :: byte) = 2" "get_field 0 5 (0x80 :: byte) = 0"
  by (simp_all add: get_field_def mask_eq_exp_minus_1)

lemma rtcp_fill_in_props:
  assumes "rtcp_fill_in r t c m = Inr (t', m')"
  shows "t' = t \<and> m' (r + 1) = m (r + 1) \<and> get_field 6 2 (m' r) = get_field 6 2 (m r)
       \<and> (m (r + 2) = 0 \<and> m (r + 3) = 0
            \<longrightarrow> load16_be m' (r + 2) = word_of_int (c_div (t - 4) 4))
       \<and> (\<not> (m (r + 2) = 0 \<and> m (r + 3) = 0)
            \<longrightarrow> m' (r + 2) = m (r + 2) \<and> m' (r + 3) = m (r + 3))
       \<and> (get_field 0 5 (m r) = 0 \<longrightarrow> get_field 0 5 (m' r) = word_of_int c AND 31)
       \<and> (get_field 0 5 (m r) \<noteq> 0 \<longrightarrow> m' r = m r)
       \<and> (\<forall>j. j < r \<or> r + 3 < j \<longrightarrow> m' j = m j)"
  using assms
  by (auto simp: rtcp_fill_in_def thn_eq_Inr_iff peek_Inr poke_Inr store16_be_Inr load16_be_def
      load16_be_stored get_count_set_count get_version_set_count split: if_splits)

definition init_ok :: "(mem \<Rightarrow> int \<Rightarrow> abort + mem) \<Rightarrow> bool" where
  "init_ok init = (\<forall>m r m1. init m r = Inr m1 \<longrightarrow> keeps_below (r + 4) m m1)"

lemma init_ok_id: "init_ok (\<lambda>m r. Inr m)"
  by (simp add: init_ok_def)

lemma init_ok_sr: "init_ok (sr_init now)"
  by (auto simp: init_ok_def sr_init_def thn_eq_Inr_iff store32_be_Inr keeps_below_def)

text \<open>
  The header that a record serializer leaves: the packet type, version 2, the length
  field \<open>(total' - 4) / 4\<close> when no \<^verbatim>\<open>len\<close> leaf is given, and the low five bits of the
  number of child lists in the count field when no \<^verbatim>\<open>count\<close> leaf is given.
\<close>

lemma rtcp_write_props:
  assumes ok: "part_ok part" "field_ok field" "init_ok init"
    and hdr: "4 \<le> hdr_len" "4 dvd hdr_len"
    and w: "rtcp_write pt name hdr_len init field part l m r = Inr (t, m')"
  shows "hdr_len \<le> t \<and> 4 dvd t \<and> 0 \<le> r \<and> r + 3 < PACKET_SIZE
       \<and> m' (r + 1) = pt \<and> get_field 6 2 (m' r) = 2
       \<and> ((\<forall>n \<in> set l. type n \<noteq> Some ''len'')
            \<longrightarrow> load16_be m' (r + 2) = word_of_int ((t - 4) div 4))
       \<and> ((\<forall>n \<in> set l. type n \<noteq> Some ''count'')
            \<longrightarrow> get_field 0 5 (m' r)
                = word_of_int (int (length (filter (\<lambda>n. type n = None) l))) AND 31)"
proof -
  from w obtain m1 m2 t1 c1 m3 where a:
    "rtcp_common_init pt m r = Inr m1" "init m1 r = Inr m2"
    "rtcp_write_loop name field part r l hdr_len 0 m2 = Inr (t1, c1, m3)"
    "rtcp_fill_in r t1 c1 m3 = Inr (t, m')"
    by (auto simp: rtcp_write_def thn_eq_Inr_iff)
  from a(1) have b: "0 \<le> r" "r + 3 < PACKET_SIZE"
    "m1 = m(r := 0x80, r + 1 := pt, r + 2 := 0, r + 3 := 0)"
    by (simp_all add: rtcp_common_init_Inr)
  from ok(3) a(2) have "keeps_below (r + 4) m1 m2" by (auto simp: init_ok_def)
  with b(3) have c: "m2 r = 0x80" "m2 (r + 1) = pt" "m2 (r + 2) = 0" "m2 (r + 3) = 0"
    by (simp_all add: keeps_below_def)
  note d = rtcp_write_loop_props [OF ok(1,2) a(3) hdr(1)]
  note e = rtcp_fill_in_props [OF a(4)]
  from d hdr have t1: "hdr_len \<le> t1" "4 dvd t1" "4 \<le> t1" by auto
  from e have tt: "t = t1" by simp
  have "m' (r + 1) = pt" using d e c by simp
  moreover have "get_field 6 2 (m' r) = 2" using d e c by (simp add: version_of_0x80)
  moreover have "load16_be m' (r + 2) = word_of_int ((t - 4) div 4)"
    if "\<forall>n \<in> set l. type n \<noteq> Some ''len''"
  proof -
    from that d c have "m3 (r + 2) = 0 \<and> m3 (r + 3) = 0" by simp
    with e have "load16_be m' (r + 2) = word_of_int (c_div (t1 - 4) 4)" by simp
    with t1(3) tt show ?thesis by (simp add: c_div_4)
  qed
  moreover have "get_field 0 5 (m' r)
      = word_of_int (int (length (filter (\<lambda>n. type n = None) l))) AND 31"
    if "\<forall>n \<in> set l. type n \<noteq> Some ''count''"
  proof -
    from that d c have "get_field 0 5 (m3 r) = 0" by (simp add: version_of_0x80)
    with e d show ?thesis by simp
  qed
  ultimately show ?thesis using t1 tt b by simp
qed

lemma thn_Inr [simp]: "thn m Inr = m"
  by (cases m) simp_all

lemma hdr_len_facts:
  "4 \<le> RTCP_SDES_HDR_LEN" "4 dvd RTCP_SDES_HDR_LEN" "4 \<le> RTCP_SR_HDR_LEN" "4 dvd RTCP_SR_HDR_LEN"
  "4 \<le> RTCP_RR_HDR_LEN" "4 dvd RTCP_RR_HDR_LEN" "4 \<le> RTCP_BYE_HDR_LEN" "4 dvd RTCP_BYE_HDR_LEN"
  by (simp_all add: RTCP_SDES_HDR_LEN_def RTCP_SR_HDR_LEN_def RTCP_RR_HDR_LEN_def
      RTCP_BYE_HDR_LEN_def)

lemmas rtcp_write_sdes_props =
  rtcp_write_props [OF part_ok_sdes field_ok_no init_ok_id hdr_len_facts(1,2),
    of RTCP_SDES "''SDES''", folded rtcp_write_sdes_def]

lemmas rtcp_write_sr_props =
  rtcp_write_props [OF part_ok_rr field_ok_sr init_ok_sr hdr_len_facts(3,4),
    of RTCP_SR "''SR''", folded rtcp_write_sr_def]

lemmas rtcp_write_rr_props =
  rtcp_write_props [OF part_ok_rr field_ok_rr init_ok_id hdr_len_facts(5,6),
    of RTCP_RR "''RR''", folded rtcp_write_rr_def]

lemmas rtcp_write_bye_props =
  rtcp_write_props [OF part_ok_bye field_ok_no init_ok_id hdr_len_facts(7,8),
    of RTCP_BYE "''BYE''", folded rtcp_write_bye_def]

lemma rtcp_dispatch_cases:
  "rtcp_dispatch now l = Some w \<Longrightarrow>
     w = rtcp_write_sdes \<or> w = rtcp_write_rr \<or> w = rtcp_write_sr now \<or> w = rtcp_write_bye
     \<or> w = rtcp_write_app"
  by (induction l) (auto split: option.splits if_splits)

lemma rtcp_packet_dvd:
  assumes "rtcp_packet now l m r = Inr (len, m')"
  shows "0 \<le> len \<and> 4 dvd len"
proof -
  from assms obtain w where w: "rtcp_dispatch now l = Some w" "w l m r = Inr (len, m')"
    by (auto simp: rtcp_packet_def split: option.splits)
  from rtcp_dispatch_cases [OF w(1)] w(2) show ?thesis
    using rtcp_write_sdes_props [of l m r len m'] rtcp_write_rr_props [of l m r len m']
      rtcp_write_sr_props [of now l m r len m'] rtcp_write_bye_props [of l m r len m']
      hdr_len_facts
    by (auto simp: rtcp_write_app_def)
qed

lemma rtcp_loop_dvd:
  "rtcp_loop clock i ns m t0 = Inr (t1, m') \<Longrightarrow> 4 dvd t0 \<Longrightarrow> 4 dvd t1"
proof (induction ns arbitrary: i m t0)
  case Nil
  then show ?case by simp
next
  case (Cons n ns)
  show ?case
  proof (cases "list n = []")
    case True
    with Cons show ?thesis by simp
  next
    case False
    with Cons.prems obtain len m1 where a: "rtcp_packet (clock i) (list n) m t0 = Inr (len, m1)"
      "rtcp_loop clock (Suc i) ns m1 (t0 + len) = Inr (t1, m')"
      by (auto simp: thn_eq_Inr_iff)
    from rtcp_packet_dvd [OF a(1)] Cons.prems(2) have "4 dvd t0 + len" by simp
    from Cons.IH [OF a(2) this] show ?thesis .
  qed
qed

lemma uint_length_field:
  assumes "4 \<le> t" "4 dvd t" "t \<le> 1500"
  shows "uint (word_of_int ((t - 4) div 4) :: u16) = t div 4 - 1"
proof -
  from assms(2) obtain k where k: "t = 4 * k" by (auto simp: dvd_def)
  with assms(1,3) have "1 \<le> k" "k \<le> 375" by simp_all
  then have "take_bit 16 (k - 1) = k - 1"
    by (intro take_bit_int_eq_self) simp_all
  then have "uint (word_of_int (k - 1) :: u16) = k - 1"
    by (simp only: uint_word_of_int_eq len_bit0 len_num1, simp)
  moreover have "(t - 4) div 4 = k - 1" "t div 4 = k" using k by simp_all
  ultimately show ?thesis by simp
qed

text \<open>
  C3. A record that \<^verbatim>\<open>rtcp_write_sdes\<close>, \<^verbatim>\<open>rtcp_write_sr\<close>, \<^verbatim>\<open>rtcp_write_rr\<close> or
  \<^verbatim>\<open>rtcp_write_bye\<close> serializes from a description without a \<^verbatim>\<open>len\<close> leaf, and that lies within
  the packet buffer, has a length that is a multiple of 4 and the 16-bit length field
  \<open>record_bytes / 4 - 1\<close>; and the length that \<^verbatim>\<open>rtcp\<close> returns for a compound packet is a
  multiple of 4 for every description.
\<close>

theorem rtcp_record_length_field:
  "((w = rtcp_write_sdes \<or> w = rtcp_write_sr now \<or> w = rtcp_write_rr \<or> w = rtcp_write_bye)
      \<and> w l m r = Inr (t, m') \<and> (\<forall>n \<in> set l. type n \<noteq> Some ''len'') \<and> r + t \<le> PACKET_SIZE
      \<longrightarrow> 4 dvd t \<and> uint (load16_be m' (r + 2)) = t div 4 - 1)
   \<and> (rtcp clock desc data = Inr (tt, md) \<longrightarrow> 4 dvd tt)"
proof -
  have a: "4 dvd t \<and> uint (load16_be m' (r + 2)) = t div 4 - 1"
    if h: "w = rtcp_write_sdes \<or> w = rtcp_write_sr now \<or> w = rtcp_write_rr \<or> w = rtcp_write_bye"
      "w l m r = Inr (t, m')" "\<forall>n \<in> set l. type n \<noteq> Some ''len''" "r + t \<le> PACKET_SIZE"
  proof -
    from h(1,2) have p: "4 \<le> t \<and> 4 dvd t \<and> 0 \<le> r
        \<and> ((\<forall>n \<in> set l. type n \<noteq> Some ''len'')
            \<longrightarrow> load16_be m' (r + 2) = word_of_int ((t - 4) div 4))"
      using rtcp_write_sdes_props [of l m r t m'] rtcp_write_rr_props [of l m r t m']
        rtcp_write_sr_props [of now l m r t m'] rtcp_write_bye_props [of l m r t m'] hdr_len_facts
      by auto
    with h(4) have "t \<le> 1500" by (simp add: PACKET_SIZE_def)
    with p h(3) uint_length_field [of t] show ?thesis by simp
  qed
  have b: "4 dvd tt" if "rtcp clock desc data = Inr (tt, md)"
  proof -
    from that obtain ns where "rtcp_loop clock 0 ns data 0 = Inr (tt, md)"
      by (auto simp: rtcp_def thn_eq_Inr_iff)
    from rtcp_loop_dvd [OF this] show ?thesis by simp
  qed
  from a b show ?thesis by blast
qed

theorem rtcp_record_length_field_witness:
  "\<exists>m'. rtcp_write_bye [Node (Some ''BYE'') 0 None [],
                          Node None 0 None [Node (Some ''ssrc'') 1 None []]] (\<lambda>i. 0) 0
          = Inr (8, m')
        \<and> rtcp (\<lambda>i. \<lparr>tv_sec = 0, tv_usec = 0\<rparr>) '' (BYE (ssrc=1 ))'' (\<lambda>i. 0) = Inr (8, m')
        \<and> uint (load16_be m' 2) = 1 \<and> (4 :: int) dvd 8"
proof -
  let ?l = "[Node (Some ''BYE'') 0 None [], Node None 0 None [Node (Some ''ssrc'') 1 None []]]"
  obtain m' where a: "rtcp_write_bye ?l (\<lambda>i. 0) 0 = Inr (8, m')"
    by (simp add: rtcp_defs mem_defs rtcp_common_init_eq)
  have b: "rtcp (\<lambda>i. \<lparr>tv_sec = 0, tv_usec = 0\<rparr>) '' (BYE (ssrc=1 ))'' (\<lambda>i. 0)
      = rtcp_write_bye ?l (\<lambda>i. 0) 0"
    by (simp add: rtcp_def rtcp_packet_def parse_defs clib_defs)
  from rtcp_record_length_field [of rtcp_write_bye now ?l "\<lambda>i. 0" 0 8 m'
      "\<lambda>i. \<lparr>tv_sec = 0, tv_usec = 0\<rparr>" "'' (BYE (ssrc=1 ))''" "\<lambda>i. 0" 8 m'] a b
  have "uint (load16_be m' 2) = 1 \<and> (4 :: int) dvd 8"
    by (simp add: PACKET_SIZE_def)
  with a b show ?thesis by auto
qed

section \<open>Overrides of 0 are no overrides\<close>

definition not_len_count :: "node \<Rightarrow> bool" where
  "not_len_count n = (type n \<noteq> Some ''len'' \<and> type n \<noteq> Some ''count'')"

lemma thn_cong_Inr:
  "(\<And>x. m = Inr x \<Longrightarrow> f x = g x) \<Longrightarrow> thn m f = thn m g"
  by (cases m) simp_all

lemma store16_zero_triv:
  "0 \<le> i \<Longrightarrow> i + 1 < PACKET_SIZE \<Longrightarrow> m i = 0 \<Longrightarrow> m (i + 1) = 0 \<Longrightarrow> store16_be m i 0 = Inr m"
  by (auto simp: store16_be_Inr fun_eq_iff)

lemma rtcp_write_loop_zero_leaves:
  assumes ok: "part_ok part" "field_ok field" and nm: "name \<noteq> ''len''" "name \<noteq> ''count''"
    and r: "0 \<le> r" "r + 3 < PACKET_SIZE"
  shows "(\<forall>n \<in> set l. \<not> not_len_count n \<longrightarrow> num n = 0)
    \<Longrightarrow> m (r + 2) = 0 \<Longrightarrow> m (r + 3) = 0 \<Longrightarrow> get_field 0 5 (m r) = 0 \<Longrightarrow> 4 \<le> t0
    \<Longrightarrow> rtcp_write_loop name field part r l t0 c0 m
        = rtcp_write_loop name field part r (filter not_len_count l) t0 c0 m"
proof (induction l arbitrary: t0 c0 m)
  case Nil
  then show ?case by simp
next
  case (Cons n ns)
  from Cons.prems(1) have z: "\<forall>n \<in> set ns. \<not> not_len_count n \<longrightarrow> num n = 0" by simp
  show ?case
  proof (cases "type n")
    case None
    have "thn (part (list n) m (r + t0))
            (\<lambda>(len, m). rtcp_write_loop name field part r ns (t0 + len) (c0 + 1) m)
        = thn (part (list n) m (r + t0))
            (\<lambda>(len, m). rtcp_write_loop name field part r (filter not_len_count ns)
                           (t0 + len) (c0 + 1) m)"
    proof (rule thn_cong_Inr)
      fix x assume x: "part (list n) m (r + t0) = Inr x"
      obtain len m1 where x': "x = (len, m1)" by (cases x)
      from ok(1) x x' have b: "0 \<le> len" "keeps_below (r + t0) m m1"
        by (auto simp: part_ok_def)
      from b(2) Cons.prems(5) have c: "m1 r = m r" "m1 (r + 2) = m (r + 2)" "m1 (r + 3) = m (r + 3)"
        by (simp_all add: keeps_below_def)
      from b(1) Cons.prems(5) have "4 \<le> t0 + len" by simp
      from Cons.IH [OF z _ _ _ this, of m1 "c0 + 1"] c Cons.prems(2,3,4) x'
      show "(case x of (len, m) \<Rightarrow> rtcp_write_loop name field part r ns (t0 + len) (c0 + 1) m)
          = (case x of (len, m) \<Rightarrow> rtcp_write_loop name field part r (filter not_len_count ns)
                                    (t0 + len) (c0 + 1) m)"
        by simp
    qed
    moreover have "not_len_count n" using None by (simp add: not_len_count_def)
    ultimately show ?thesis using None by simp
  next
    case (Some t)
    note ih = Cons.IH [OF z Cons.prems(2,3,4,5), of c0]
    consider (name) "t = name" | (len) "t = ''len''" | (count) "t = ''count''"
      | (other) "t \<noteq> name" "t \<noteq> ''len''" "t \<noteq> ''count''" by blast
    then show ?thesis
    proof cases
      case name
      with Some nm have "not_len_count n" by (simp add: not_len_count_def)
      with name Some ih show ?thesis by simp
    next
      case len
      with Some Cons.prems(1) have "num n = 0" by (simp add: not_len_count_def)
      with len ok(2) have "rtcp_leaf field t (num n) m r = store16_be m (r + 2) 0"
        by (simp add: rtcp_leaf_def field_ok_def)
      also have "\<dots> = Inr m"
        using r Cons.prems(2,3) store16_zero_triv [of "r + 2" m] by (simp add: add.assoc)
      finally have "rtcp_leaf field t (num n) m r = Inr m" .
      moreover have "\<not> not_len_count n" using Some len by (simp add: not_len_count_def)
      ultimately show ?thesis using Some len nm ih by simp
    next
      case count
      with Some Cons.prems(1) have "num n = 0" by (simp add: not_len_count_def)
      with count ok(2) have "rtcp_leaf field t (num n) m r = upd_byte m r (set_field 0 5 0)"
        by (simp add: rtcp_leaf_def field_ok_def)
      also have "\<dots> = Inr m"
        using r set_count_zero [OF Cons.prems(4)] by (simp add: upd_byte_def peek_def poke_def)
      finally have "rtcp_leaf field t (num n) m r = Inr m" .
      moreover have "\<not> not_len_count n" using Some count by (simp add: not_len_count_def)
      ultimately show ?thesis using Some count nm ih by simp
    next
      case other
      have "thn (rtcp_leaf field t (num n) m r)
              (\<lambda>m. rtcp_write_loop name field part r ns t0 c0 m)
          = thn (rtcp_leaf field t (num n) m r)
              (\<lambda>m. rtcp_write_loop name field part r (filter not_len_count ns) t0 c0 m)"
      proof (rule thn_cong_Inr)
        fix m1 assume x: "rtcp_leaf field t (num n) m r = Inr m1"
        from rtcp_leaf_props [OF ok(2) x] other Cons.prems(2,3,4)
        have "m1 (r + 2) = 0" "m1 (r + 3) = 0" "get_field 0 5 (m1 r) = 0" by simp_all
        from Cons.IH [OF z this Cons.prems(5), of c0]
        show "rtcp_write_loop name field part r ns t0 c0 m1
            = rtcp_write_loop name field part r (filter not_len_count ns) t0 c0 m1" .
      qed
      moreover have "not_len_count n" using Some other by (simp add: not_len_count_def)
      ultimately show ?thesis using Some other by simp
    qed
  qed
qed

lemma rtcp_write_zero_leaves:
  assumes ok: "part_ok part" "field_ok field" "init_ok init"
    and nm: "name \<noteq> ''len''" "name \<noteq> ''count''" and hdr: "4 \<le> hdr_len"
    and z: "\<forall>n \<in> set l. \<not> not_len_count n \<longrightarrow> num n = 0"
  shows "rtcp_write pt name hdr_len init field part l m r
       = rtcp_write pt name hdr_len init field part (filter not_len_count l) m r"
  unfolding rtcp_write_def
proof (rule thn_cong_Inr, rule thn_cong_Inr)
  fix m1 m2 assume a: "rtcp_common_init pt m r = Inr m1" "init m1 r = Inr m2"
  from a(1) have b: "0 \<le> r" "r + 3 < PACKET_SIZE"
    "m1 = m(r := 0x80, r + 1 := pt, r + 2 := 0, r + 3 := 0)"
    by (simp_all add: rtcp_common_init_Inr)
  from ok(3) a(2) have "keeps_below (r + 4) m1 m2" by (auto simp: init_ok_def)
  with b(3) have c: "m2 (r + 2) = 0" "m2 (r + 3) = 0" "get_field 0 5 (m2 r) = 0"
    by (simp_all add: keeps_below_def version_of_0x80)
  from rtcp_write_loop_zero_leaves [OF ok(1,2) nm b(1,2) z c hdr, of 0]
  show "thn (rtcp_write_loop name field part r l hdr_len 0 m2)
          (\<lambda>(total', count, m). rtcp_fill_in r total' count m)
      = thn (rtcp_write_loop name field part r (filter not_len_count l) hdr_len 0 m2)
          (\<lambda>(total', count, m). rtcp_fill_in r total' count m)"
    by simp
qed

lemmas rtcp_write_sdes_zero =
  rtcp_write_zero_leaves [OF part_ok_sdes field_ok_no init_ok_id _ _ hdr_len_facts(1),
    of "''SDES''" _ RTCP_SDES, folded rtcp_write_sdes_def, simplified]

lemmas rtcp_write_sr_zero =
  rtcp_write_zero_leaves [OF part_ok_rr field_ok_sr init_ok_sr _ _ hdr_len_facts(3),
    of "''SR''" _ RTCP_SR, folded rtcp_write_sr_def, simplified]

lemmas rtcp_write_rr_zero =
  rtcp_write_zero_leaves [OF part_ok_rr field_ok_rr init_ok_id _ _ hdr_len_facts(5),
    of "''RR''" _ RTCP_RR, folded rtcp_write_rr_def, simplified]

lemmas rtcp_write_bye_zero =
  rtcp_write_zero_leaves [OF part_ok_bye field_ok_no init_ok_id _ _ hdr_len_facts(7),
    of "''BYE''" _ RTCP_BYE, folded rtcp_write_bye_def, simplified]

lemma groups_of_filter:
  "filter (\<lambda>n. type n = None) (filter not_len_count l) = filter (\<lambda>n. type n = None) l"
  by (induction l) (auto simp: not_len_count_def)

lemma no_len_count_filter:
  "\<forall>n \<in> set (filter not_len_count l). type n \<noteq> Some ''len''"
  "\<forall>n \<in> set (filter not_len_count l). type n \<noteq> Some ''count''"
  by (auto simp: not_len_count_def)

lemma rtp_words_append:
  "rtp_words be (xs @ ys) l = thn (rtp_words be xs l) (rtp_words be ys)"
  by (induction xs arbitrary: l) (auto simp: thn_def split: sum.splits)

lemma rtp_word_len_0: "length' l = 0 \<Longrightarrow> rtp_word be ''len=0'' l = Inr l"
  by (simp add: rtp_word_def parse_uint_def clib_defs int32_def Let_def)

lemma set_cc_zero:
  assumes "get_field 0 4 b = 0"
  shows "set_field 0 4 0 b = b"
proof -
  from assms have e: "bit (b AND 15) k = bit (0 :: byte) k" for k
    by (simp add: get_field_def mask_eq_exp_minus_1)
  have z: "\<not> bit b 0" "\<not> bit b 1" "\<not> bit b 2" "\<not> bit b 3"
    using e [of 0] e [of 1] e [of 2] e [of 3] by (simp_all add: bit_simps)
  show ?thesis
    unfolding set_field_def mask_eq_exp_minus_1
    by (rule byte_eqI) (use z in \<open>simp_all add: bit_simps\<close>)
qed

lemma get_cc_set_cc: "get_field 0 4 (set_field 0 4 v b) = v AND 15"
  unfolding set_field_def get_field_def mask_eq_exp_minus_1
  by (rule byte_eqI) (simp_all add: bit_simps)

lemma h_cc_zero: "h_cc m = 0 \<longleftrightarrow> get_field 0 4 (m 0) = 0"
  by (simp add: h_cc_def unsigned_eq_0_iff)

lemma rtp_word_cc_0:
  assumes "h_cc (packet l) = 0"
  shows "rtp_word be ''cc=0'' l = Inr l"
proof -
  from assms have "set_field 0 4 0 (packet l 0) = packet l 0"
    by (simp add: h_cc_zero set_cc_zero)
  then have "(packet l)(0 := set_field 0 4 0 (packet l 0)) = packet l"
    by (simp add: fun_eq_iff)
  then show ?thesis
    by (simp add: rtp_word_def parse_uint_def clib_defs Let_def)
qed

lemma rtp_finish_props:
  assumes "rtp_finish l = Inr (len, mf)"
  shows "(length' l = 0 \<longrightarrow> len = 12 + h_cc mf * 4 + pl l + ext_pl l)
       \<and> (h_cc (packet l) = 0 \<longrightarrow> get_field 0 4 (mf 0) = word_of_int (cc l) AND 15)"
  using assms
  by (auto simp: rtp_finish_def Let_def get_cc_set_cc h_cc_def split: if_splits)

text \<open>
  C10. For each of the four record serializers, a description whose \<^verbatim>\<open>len\<close> and \<^verbatim>\<open>count\<close>
  leaves all have the value 0 is serialized as the description without these leaves is:
  the same outcome, length and bytes; when it returns, the length field is
  \<open>(total' - 4) / 4\<close> and the count field holds (the low five bits of) the number of child
  lists. In \<^verbatim>\<open>rtp\<close>, a token \<^verbatim>\<open>len=0\<close> read while no length override is in force, and a token
  \<^verbatim>\<open>cc=0\<close> read while the CC field is 0, change nothing, so that the line is serialized as the
  line without the token is; with no override the returned length is
  \<open>12 + 4 * CC + payload + extension\<close>, and with a CC field of 0 the field is filled in
  with (the low four bits of) the count derived from the CSRC tokens.
\<close>

theorem zero_override_is_default:
  "((w = rtcp_write_sdes \<or> w = rtcp_write_sr now \<or> w = rtcp_write_rr \<or> w = rtcp_write_bye)
      \<and> (\<forall>n \<in> set l. \<not> not_len_count n \<longrightarrow> num n = 0)
      \<longrightarrow> w l m r = w (filter not_len_count l) m r
        \<and> (\<forall>t m'. w l m r = Inr (t, m')
             \<longrightarrow> load16_be m' (r + 2) = word_of_int ((t - 4) div 4)
               \<and> get_field 0 5 (m' r)
                   = word_of_int (int (length (filter (\<lambda>n. type n = None) l))) AND 31))
   \<and> (rtp_words be xs l0 = Inr l1 \<and> length' l1 = 0
        \<longrightarrow> rtp_words be (xs @ ''len=0'' # ys) l0 = rtp_words be (xs @ ys) l0)
   \<and> (rtp_words be xs l0 = Inr l1 \<and> h_cc (packet l1) = 0
        \<longrightarrow> rtp_words be (xs @ ''cc=0'' # ys) l0 = rtp_words be (xs @ ys) l0)
   \<and> (rtp_finish l1 = Inr (len, mf)
        \<longrightarrow> (length' l1 = 0 \<longrightarrow> len = 12 + h_cc mf * 4 + pl l1 + ext_pl l1)
          \<and> (h_cc (packet l1) = 0 \<longrightarrow> get_field 0 4 (mf 0) = word_of_int (cc l1) AND 15))"
proof -
  have a: "w l m r = w (filter not_len_count l) m r
      \<and> (\<forall>t m'. w l m r = Inr (t, m')
           \<longrightarrow> load16_be m' (r + 2) = word_of_int ((t - 4) div 4)
             \<and> get_field 0 5 (m' r)
                 = word_of_int (int (length (filter (\<lambda>n. type n = None) l))) AND 31)"
    if h: "w = rtcp_write_sdes \<or> w = rtcp_write_sr now \<or> w = rtcp_write_rr \<or> w = rtcp_write_bye"
      "\<forall>n \<in> set l. \<not> not_len_count n \<longrightarrow> num n = 0"
  proof -
    have e: "w l m r = w (filter not_len_count l) m r"
      using h rtcp_write_sdes_zero [of l m r] rtcp_write_sr_zero [of l now m r]
        rtcp_write_rr_zero [of l m r] rtcp_write_bye_zero [of l m r]
      by auto
    have "load16_be m' (r + 2) = word_of_int ((t - 4) div 4)
        \<and> get_field 0 5 (m' r)
            = word_of_int (int (length (filter (\<lambda>n. type n = None) l))) AND 31"
      if "w l m r = Inr (t, m')" for t m'
    proof -
      from that e have "w (filter not_len_count l) m r = Inr (t, m')" by simp
      with h(1) show ?thesis
        using rtcp_write_sdes_props [of "filter not_len_count l" m r t m']
          rtcp_write_sr_props [of now "filter not_len_count l" m r t m']
          rtcp_write_rr_props [of "filter not_len_count l" m r t m']
          rtcp_write_bye_props [of "filter not_len_count l" m r t m']
          no_len_count_filter [of l] groups_of_filter [of l]
        by auto
    qed
    with e show ?thesis by blast
  qed
  have b: "rtp_words be (xs @ ''len=0'' # ys) l0 = rtp_words be (xs @ ys) l0"
    if "rtp_words be xs l0 = Inr l1" "length' l1 = 0"
    using that by (simp add: rtp_words_append rtp_word_len_0)
  have c: "rtp_words be (xs @ ''cc=0'' # ys) l0 = rtp_words be (xs @ ys) l0"
    if "rtp_words be xs l0 = Inr l1" "h_cc (packet l1) = 0"
    using that by (simp add: rtp_words_append rtp_word_cc_0)
  note d = rtp_finish_props [of l1 len mf]
  from a b c d show ?thesis by blast
qed

theorem zero_override_is_default_witness:
  "rtcp_write_bye [Node (Some ''BYE'') 0 None [], Node (Some ''len'') 0 None [],
                   Node (Some ''count'') 0 None [],
                   Node None 0 None [Node (Some ''ssrc'') 1 None []]] (\<lambda>i. 0) 0
     = rtcp_write_bye [Node (Some ''BYE'') 0 None [],
                       Node None 0 None [Node (Some ''ssrc'') 1 None []]] (\<lambda>i. 0) 0
   \<and> rtp_words True [''len=0'', ''pt=3'']
         \<lparr>packet = (\<lambda>i. 0), pl = 0, ext_pl = 0, cc = 0, length' = 0\<rparr>
     = rtp_words True [''pt=3''] \<lparr>packet = (\<lambda>i. 0), pl = 0, ext_pl = 0, cc = 0, length' = 0\<rparr>
   \<and> rtp_words True [''cc=0'', ''pt=3'']
         \<lparr>packet = (\<lambda>i. 0), pl = 0, ext_pl = 0, cc = 0, length' = 0\<rparr>
     = rtp_words True [''pt=3''] \<lparr>packet = (\<lambda>i. 0), pl = 0, ext_pl = 0, cc = 0, length' = 0\<rparr>
   \<and> rtp_finish \<lparr>packet = (\<lambda>i. 0), pl = 0, ext_pl = 0, cc = 0, length' = 0\<rparr>
     = Inr (12 + h_cc (\<lambda>i. 0) * 4 + 0 + 0, \<lambda>i. 0)"
  using zero_override_is_default [where w = rtcp_write_bye
      and l = "[Node (Some ''BYE'') 0 None [], Node (Some ''len'') 0 None [],
                Node (Some ''count'') 0 None [],
                Node None 0 None [Node (Some ''ssrc'') 1 None []]]"
      and m = "\<lambda>i. 0" and r = 0 and be = True and xs = "[]" and ys = "[''pt=3'']"
      and ?l0.0 = "\<lparr>packet = (\<lambda>i. 0), pl = 0, ext_pl = 0, cc = 0, length' = 0\<rparr>"
      and ?l1.0 = "\<lparr>packet = (\<lambda>i. 0), pl = 0, ext_pl = 0, cc = 0, length' = 0\<rparr>"
      and len = 12 and mf = "\<lambda>i. 0"]
  by (simp add: not_len_count_def rtp_finish_def h_cc_def get_field_def set_field_def
      mask_eq_exp_minus_1 Let_def) (simp add: fun_eq_iff)

section \<open>The NTP time of a sender report\<close>

text \<open>The value of the last \<^verbatim>\<open>ntp\<close> leaf of a record description, if it has one.\<close>

fun last_ntp :: "node list \<Rightarrow> u64 option" where
  "last_ntp [] = None"
| "last_ntp (n # ns) =
     (case last_ntp ns of
        Some v \<Rightarrow> Some v
      | None \<Rightarrow> if type n = Some ''ntp'' then Some (num n) else None)"

definition not_ntp :: "node \<Rightarrow> bool" where
  "not_ntp n = (type n \<noteq> Some ''ntp'')"

text \<open>
  \<open>agree r m n\<close>: the packets \<open>m\<close> and \<open>n\<close> differ at most in \<^verbatim>\<open>ntp_sec\<close>, the bytes 8 to 11 of
  the record at offset \<open>r\<close>.
\<close>

definition agree :: "int \<Rightarrow> mem \<Rightarrow> mem \<Rightarrow> bool" where
  "agree r m n = (\<forall>i. i < r + 8 \<or> r + 11 < i \<longrightarrow> m i = n i)"

lemma agree_upd: "agree r m n \<Longrightarrow> agree r (m(i := b)) (n(i := b))"
  by (simp add: agree_def)

lemma poke_agree:
  "agree r m n \<Longrightarrow> poke m i b = Inr m' \<Longrightarrow> \<exists>n'. poke n i b = Inr n' \<and> agree r m' n'"
  by (auto simp: poke_Inr agree_upd)

lemma store16_be_agree:
  "agree r m n \<Longrightarrow> store16_be m i v = Inr m' \<Longrightarrow> \<exists>n'. store16_be n i v = Inr n' \<and> agree r m' n'"
  by (auto simp: store16_be_Inr agree_upd)

lemma store32_be_agree:
  "agree r m n \<Longrightarrow> store32_be m i v = Inr m' \<Longrightarrow> \<exists>n'. store32_be n i v = Inr n' \<and> agree r m' n'"
  by (auto simp: store32_be_Inr agree_upd)

lemma upd_byte_agree:
  "agree r m n \<Longrightarrow> upd_byte m r f = Inr m' \<Longrightarrow> \<exists>n'. upd_byte n r f = Inr n' \<and> agree r m' n'"
  by (auto simp: upd_byte_Inr agree_def)

lemma rtcp_rr_loop_agree:
  "agree r m n \<Longrightarrow> rtcp_rr_loop l m rr = Inr m'
   \<Longrightarrow> \<exists>n'. rtcp_rr_loop l n rr = Inr n' \<and> agree r m' n'"
proof (induction l arbitrary: m n)
  case Nil
  then show ?case by simp
next
  case (Cons x xs)
  show ?case
  proof (cases "type x")
    case None
    with Cons show ?thesis by simp
  next
    case (Some t)
    let ?step = "\<lambda>m. (if t = ''ssrc'' then store32_be m rr (ucast (num x))
           else if t = ''fraction'' then poke m (rr + 4) (ucast (num x * 256))
           else if t = ''lost'' then
             thn (poke m (rr + 5) (ucast (drop_bit 16 (num x)))) (\<lambda>m.
             thn (poke m (rr + 6) (ucast (drop_bit 8 (num x)))) (\<lambda>m.
             poke m (rr + 7) (ucast (num x))))
           else if t = ''last_seq'' then store32_be m (rr + 8) (ucast (num x))
           else if t = ''jit'' then store32_be m (rr + 12) (ucast (num x))
           else if t = ''lsr'' then store32_be m (rr + 16) (ucast (num x))
           else if t = ''dlsr'' then store32_be m (rr + 20) (ucast (num x))
           else Inl (Exit 2 (''Invalid RTCP RR type '' @ t @ [CHR 0x0A])))"
    from Some Cons.prems(2) obtain m1 where a: "?step m = Inr m1" "rtcp_rr_loop xs m1 rr = Inr m'"
      by (auto simp: thn_eq_Inr_iff)
    from a(1) Cons.prems(1) have "\<exists>n1. ?step n = Inr n1 \<and> agree r m1 n1"
      by (auto simp: thn_eq_Inr_iff poke_Inr store32_be_Inr agree_upd split: if_splits)
    then obtain n1 where b: "?step n = Inr n1" "agree r m1 n1" by blast
    from Cons.IH [OF b(2) a(2)] obtain n' where "rtcp_rr_loop xs n1 rr = Inr n'" "agree r m' n'"
      by blast
    with Some b(1) show ?thesis by auto
  qed
qed

lemma rtcp_rr_agree:
  "agree r m n \<Longrightarrow> rtcp_rr l m rr = Inr (len, m')
   \<Longrightarrow> \<exists>n'. rtcp_rr l n rr = Inr (len, n') \<and> agree r m' n'"
  using rtcp_rr_loop_agree [of r m n l rr]
  by (auto simp: rtcp_rr_def thn_eq_Inr_iff)

lemma sr_leaf_agree:
  assumes "agree r m n" "rtcp_leaf sr_field t v m r = Inr m'"
  shows "if t = ''ntp'' then agree r m' n
         else (\<exists>n'. rtcp_leaf sr_field t v n r = Inr n' \<and> agree r m' n')"
proof (cases "t = ''ntp''")
  case True
  with assms(2) have "store32_be m (r + 8) (ucast v) = Inr m'"
    by (simp add: rtcp_leaf_def sr_field_def)
  then have "agree r m' m" by (auto simp: store32_be_Inr agree_def)
  with assms(1) True show ?thesis by (auto simp: agree_def)
next
  case False
  with assms show ?thesis
    by (auto simp: rtcp_leaf_def sr_field_def
        dest: store32_be_agree store16_be_agree upd_byte_agree split: if_splits)
qed

lemma sr_loop_agree:
  "agree r m n \<Longrightarrow> rtcp_write_loop ''SR'' sr_field rtcp_rr r l t0 c0 m = Inr (t1, c1, m')
   \<Longrightarrow> \<exists>n'. rtcp_write_loop ''SR'' sr_field rtcp_rr r (filter not_ntp l) t0 c0 n = Inr (t1, c1, n')
         \<and> agree r m' n'"
proof (induction l arbitrary: m n t0 c0)
  case Nil
  then show ?case by simp
next
  case (Cons x xs)
  show ?case
  proof (cases "type x")
    case None
    then have k: "not_ntp x" by (simp add: not_ntp_def)
    from None Cons.prems(2) obtain len m1 where a: "rtcp_rr (list x) m (r + t0) = Inr (len, m1)"
      "rtcp_write_loop ''SR'' sr_field rtcp_rr r xs (t0 + len) (c0 + 1) m1 = Inr (t1, c1, m')"
      by (auto simp: thn_eq_Inr_iff)
    from rtcp_rr_agree [OF Cons.prems(1) a(1)] obtain n1 where
      b: "rtcp_rr (list x) n (r + t0) = Inr (len, n1)" "agree r m1 n1" by blast
    from Cons.IH [OF b(2) a(2)] b(1) None k show ?thesis by auto
  next
    case (Some t)
    show ?thesis
    proof (cases "t = ''SR''")
      case True
      with Some have k: "not_ntp x" by (simp add: not_ntp_def)
      from True Some Cons.prems(2)
      have "rtcp_write_loop ''SR'' sr_field rtcp_rr r xs t0 c0 m = Inr (t1, c1, m')" by simp
      from Cons.IH [OF Cons.prems(1) this] Some True k show ?thesis by auto
    next
      case False
      with Some Cons.prems(2) obtain m1 where a: "rtcp_leaf sr_field t (num x) m r = Inr m1"
        "rtcp_write_loop ''SR'' sr_field rtcp_rr r xs t0 c0 m1 = Inr (t1, c1, m')"
        by (auto simp: thn_eq_Inr_iff)
      note s = sr_leaf_agree [OF Cons.prems(1) a(1)]
      show ?thesis
      proof (cases "t = ''ntp''")
        case True
        with Some have k: "\<not> not_ntp x" by (simp add: not_ntp_def)
        from s True have "agree r m1 n" by simp
        from Cons.IH [OF this a(2)] k show ?thesis by auto
      next
        case nn: False
        with Some have k: "not_ntp x" by (simp add: not_ntp_def)
        from s nn obtain n1 where b: "rtcp_leaf sr_field t (num x) n r = Inr n1" "agree r m1 n1"
          by auto
        from Cons.IH [OF b(2) a(2)] b(1) Some False k show ?thesis by auto
      qed
    qed
  qed
qed

lemma rtcp_fill_in_agree:
  assumes "agree r m n" "rtcp_fill_in r t c m = Inr (t', m')"
  shows "\<exists>n'. rtcp_fill_in r t c n = Inr (t', n') \<and> agree r m' n'"
proof -
  let ?len = "word_of_int (c_div (t - 4) 4) :: u16"
  from assms(2) obtain m1 where a: "0 \<le> r" "r + 3 < PACKET_SIZE" "t' = t"
    "(if m (r + 2) = 0 \<and> m (r + 3) = 0 then store16_be m (r + 2) ?len else Inr m) = Inr m1"
    "(if get_field 0 5 (m1 r) = 0 then poke m1 r (set_field 0 5 (word_of_int c) (m1 r))
      else Inr m1) = Inr m'"
    by (auto simp: rtcp_fill_in_def thn_eq_Inr_iff peek_Inr)
  from assms(1) have e: "n (r + 2) = m (r + 2)" "n (r + 3) = m (r + 3)"
    by (simp_all add: agree_def)
  from a(4) assms(1) obtain n1 where b:
    "(if m (r + 2) = 0 \<and> m (r + 3) = 0 then store16_be n (r + 2) ?len else Inr n) = Inr n1"
    "agree r m1 n1"
    by (cases "m (r + 2) = 0 \<and> m (r + 3) = 0") (auto dest: store16_be_agree)
  from b(2) have f: "n1 r = m1 r" by (simp add: agree_def)
  from a(5) b(2) obtain n' where c:
    "(if get_field 0 5 (m1 r) = 0 then poke n1 r (set_field 0 5 (word_of_int c) (m1 r))
      else Inr n1) = Inr n'" "agree r m' n'"
    by (cases "get_field 0 5 (m1 r) = 0") (auto dest: poke_agree)
  from a(1,2,3) e b(1) f c(1) have "rtcp_fill_in r t c n = Inr (t', n')"
    by (auto simp: rtcp_fill_in_def peek_def split: if_splits)
  with c(2) show ?thesis by blast
qed

lemma agree_refl [simp]: "agree r m m"
  by (simp add: agree_def)

lemma rtcp_write_sr_agree:
  assumes "rtcp_write_sr now l m r = Inr (t, m')"
  shows "\<exists>n'. rtcp_write_sr now (filter not_ntp l) m r = Inr (t, n') \<and> agree r m' n'"
proof -
  from assms obtain m1 m2 t1 c1 m3 where a:
    "rtcp_common_init RTCP_SR m r = Inr m1" "sr_init now m1 r = Inr m2"
    "rtcp_write_loop ''SR'' sr_field rtcp_rr r l RTCP_SR_HDR_LEN 0 m2 = Inr (t1, c1, m3)"
    "rtcp_fill_in r t1 c1 m3 = Inr (t, m')"
    by (auto simp: rtcp_write_sr_def rtcp_write_def thn_eq_Inr_iff)
  from sr_loop_agree [OF agree_refl a(3)] obtain n3 where
    b: "rtcp_write_loop ''SR'' sr_field rtcp_rr r (filter not_ntp l) RTCP_SR_HDR_LEN 0 m2
          = Inr (t1, c1, n3)" "agree r m3 n3" by blast
  from rtcp_fill_in_agree [OF b(2) a(4)] obtain n' where
    c: "rtcp_fill_in r t1 c1 n3 = Inr (t, n')" "agree r m' n'" by blast
  from a(1,2) b(1) c show ?thesis
    by (auto simp: rtcp_write_sr_def rtcp_write_def)
qed

lemma load32_be_stored:
  "load32_be (m(i := ucast (drop_bit 24 v), i + 1 := ucast (drop_bit 16 v),
                i + 2 := ucast (drop_bit 8 v), i + 3 := ucast v)) i = (v :: u32)"
proof -
  have "push_bit 24 (ucast (ucast (drop_bit 24 v) :: byte) :: u32)
        OR push_bit 16 (ucast (ucast (drop_bit 16 v) :: byte))
        OR push_bit 8 (ucast (ucast (drop_bit 8 v) :: byte))
        OR ucast (ucast v :: byte) = v"
  proof (rule bit_word_eqI)
    fix n assume "n < LENGTH(32)"
    then have "n < 8 \<or> (8 \<le> n \<and> n < 16) \<or> (16 \<le> n \<and> n < 24) \<or> (24 \<le> n \<and> n < 32)"
      by auto
    then show "bit (push_bit 24 (ucast (ucast (drop_bit 24 v) :: byte) :: u32)
        OR push_bit 16 (ucast (ucast (drop_bit 16 v) :: byte))
        OR push_bit 8 (ucast (ucast (drop_bit 8 v) :: byte))
        OR ucast (ucast v :: byte)) n = bit v n"
      by (auto simp: bit_simps)
  qed
  then show ?thesis by (simp add: load32_be_def)
qed

lemma load32_be_cong:
  "(\<forall>j. i \<le> j \<and> j \<le> i + 3 \<longrightarrow> m' j = m j) \<Longrightarrow> load32_be m' i = load32_be m i"
  by (simp add: load32_be_def)

lemma sr_leaf_ntp:
  assumes "rtcp_leaf sr_field t v m r = Inr m1"
  shows "(\<forall>j. r + 12 \<le> j \<and> j \<le> r + 15 \<longrightarrow> m1 j = m j)
       \<and> (if t = ''ntp'' then load32_be m1 (r + 8) = ucast v
          else (\<forall>j. r + 8 \<le> j \<and> j \<le> r + 11 \<longrightarrow> m1 j = m j))"
proof (cases "t = ''ntp''")
  case True
  with assms have "store32_be m (r + 8) (ucast v) = Inr m1"
    by (simp add: rtcp_leaf_def sr_field_def)
  then have m1: "m1 = m(r + 8 := ucast (drop_bit 24 (ucast v :: u32)),
      r + 8 + 1 := ucast (drop_bit 16 (ucast v :: u32)),
      r + 8 + 2 := ucast (drop_bit 8 (ucast v :: u32)), r + 8 + 3 := ucast (ucast v :: u32))"
    by (simp add: store32_be_Inr)
  have "load32_be m1 (r + 8) = ucast v"
    unfolding m1 by (rule load32_be_stored)
  moreover have "\<forall>j. r + 12 \<le> j \<and> j \<le> r + 15 \<longrightarrow> m1 j = m j"
    unfolding m1 by simp
  ultimately show ?thesis using True by simp
next
  case False
  with assms show ?thesis
    by (auto simp: rtcp_leaf_def sr_field_def store32_be_Inr store16_be_Inr upd_byte_Inr
        split: if_splits)
qed

lemma sr_loop_ntp:
  "rtcp_write_loop ''SR'' sr_field rtcp_rr r l t0 c0 m = Inr (t1, c1, m') \<Longrightarrow> 28 \<le> t0
   \<Longrightarrow> (\<forall>j. r + 12 \<le> j \<and> j \<le> r + 15 \<longrightarrow> m' j = m j)
     \<and> (case last_ntp l of
          Some v \<Rightarrow> load32_be m' (r + 8) = ucast v
        | None \<Rightarrow> (\<forall>j. r + 8 \<le> j \<and> j \<le> r + 11 \<longrightarrow> m' j = m j))"
proof (induction l arbitrary: m t0 c0)
  case Nil
  then show ?case by simp
next
  case (Cons x xs)
  have step: ?case
    if a: "rtcp_write_loop ''SR'' sr_field rtcp_rr r xs t0' c0' m1 = Inr (t1, c1, m')"
      "28 \<le> t0'" "\<forall>j. r + 12 \<le> j \<and> j \<le> r + 15 \<longrightarrow> m1 j = m j"
      "if type x = Some ''ntp'' then load32_be m1 (r + 8) = ucast (num x)
       else (\<forall>j. r + 8 \<le> j \<and> j \<le> r + 11 \<longrightarrow> m1 j = m j)"
    for t0' c0' m1
  proof -
    note ih = Cons.IH [OF a(1,2)]
    show ?thesis
    proof (cases "last_ntp xs")
      case (Some v)
      with ih a(3) show ?thesis by simp
    next
      case None
      with ih have k: "\<forall>j. r + 8 \<le> j \<and> j \<le> r + 11 \<longrightarrow> m' j = m1 j" by simp
      then have "load32_be m' (r + 8) = load32_be m1 (r + 8)"
        by (intro load32_be_cong) simp
      with None ih a(3,4) k show ?thesis by simp
    qed
  qed
  show ?case
  proof (cases "type x")
    case None
    with Cons.prems(1) obtain len m1 where a: "rtcp_rr (list x) m (r + t0) = Inr (len, m1)"
      "rtcp_write_loop ''SR'' sr_field rtcp_rr r xs (t0 + len) (c0 + 1) m1 = Inr (t1, c1, m')"
      by (auto simp: thn_eq_Inr_iff)
    from rtcp_rr_props [OF a(1)] have b: "len = 24" "keeps_below (r + t0) m m1" by simp_all
    from b(2) Cons.prems(2) have c: "\<forall>j. j \<le> r + 15 \<longrightarrow> m1 j = m j"
      by (simp add: keeps_below_def)
    from b(1) Cons.prems(2) have "28 \<le> t0 + len" by simp
    from step [OF a(2) this] c None show ?thesis by simp
  next
    case (Some t)
    show ?thesis
    proof (cases "t = ''SR''")
      case True
      with Some Cons.prems(1)
      have "rtcp_write_loop ''SR'' sr_field rtcp_rr r xs t0 c0 m = Inr (t1, c1, m')" by simp
      from step [OF this Cons.prems(2)] Some True show ?thesis by simp
    next
      case False
      with Some Cons.prems(1) obtain m1 where a: "rtcp_leaf sr_field t (num x) m r = Inr m1"
        "rtcp_write_loop ''SR'' sr_field rtcp_rr r xs t0 c0 m1 = Inr (t1, c1, m')"
        by (auto simp: thn_eq_Inr_iff)
      from sr_leaf_ntp [OF a(1)] step [OF a(2) Cons.prems(2)] Some show ?thesis by simp
    qed
  qed
qed

lemma sr_init_props:
  assumes "sr_init now m r = Inr m'"
  shows "load32_be m' (r + 8) = word_of_int (tv_sec now + GETTIMEOFDAY_TO_NTP_OFFSET)
       \<and> load32_be m' (r + 12) = usec2ntp (word_of_int (tv_usec now))"
proof -
  let ?s = "word_of_int (tv_sec now + GETTIMEOFDAY_TO_NTP_OFFSET) :: u32"
  let ?f = "usec2ntp (word_of_int (tv_usec now))"
  from assms obtain m1 where a: "store32_be m (r + 8) ?s = Inr m1" "store32_be m1 (r + 12) ?f = Inr m'"
    by (auto simp: sr_init_def thn_eq_Inr_iff)
  from a(1) have m1: "m1 = m(r + 8 := ucast (drop_bit 24 ?s), r + 8 + 1 := ucast (drop_bit 16 ?s),
      r + 8 + 2 := ucast (drop_bit 8 ?s), r + 8 + 3 := ucast ?s)"
    by (simp add: store32_be_Inr)
  from a(2) have m': "m' = m1(r + 12 := ucast (drop_bit 24 ?f), r + 12 + 1 := ucast (drop_bit 16 ?f),
      r + 12 + 2 := ucast (drop_bit 8 ?f), r + 12 + 3 := ucast ?f)"
    by (simp add: store32_be_Inr)
  have "load32_be m1 (r + 8) = ?s" unfolding m1 by (rule load32_be_stored)
  moreover have "load32_be m' (r + 8) = load32_be m1 (r + 8)"
    by (rule load32_be_cong) (simp add: m')
  moreover have "load32_be m' (r + 12) = ?f" unfolding m' by (rule load32_be_stored)
  ultimately show ?thesis by simp
qed

text \<open>
  C8. When \<^verbatim>\<open>rtcp_write_sr\<close> returns, \<^verbatim>\<open>ntp_frac\<close> is \<^verbatim>\<open>htonl(usec2ntp(now.tv_usec))\<close> whatever
  the description holds, and \<^verbatim>\<open>ntp_sec\<close> is \<^verbatim>\<open>htonl(V)\<close> for the value \<open>V\<close> of the last \<^verbatim>\<open>ntp\<close>
  leaf (the wall-clock seconds plus the offset of 1900 when there is none); and the
  description without its \<^verbatim>\<open>ntp\<close> leaves gives the same length and the same packet but
  for the four bytes of \<^verbatim>\<open>ntp_sec\<close>.
\<close>

theorem sr_ntp_overrides_seconds_only:
  "rtcp_write_sr now l m r = Inr (t, m') \<longrightarrow>
     load32_be m' (r + 12) = usec2ntp (word_of_int (tv_usec now))
     \<and> load32_be m' (r + 8)
         = (case last_ntp l of
              Some v \<Rightarrow> ucast v
            | None \<Rightarrow> word_of_int (tv_sec now + GETTIMEOFDAY_TO_NTP_OFFSET))
     \<and> (\<exists>n'. rtcp_write_sr now (filter not_ntp l) m r = Inr (t, n') \<and> agree r m' n')"
proof
  assume w: "rtcp_write_sr now l m r = Inr (t, m')"
  then obtain m1 m2 t1 c1 m3 where a:
    "rtcp_common_init RTCP_SR m r = Inr m1" "sr_init now m1 r = Inr m2"
    "rtcp_write_loop ''SR'' sr_field rtcp_rr r l RTCP_SR_HDR_LEN 0 m2 = Inr (t1, c1, m3)"
    "rtcp_fill_in r t1 c1 m3 = Inr (t, m')"
    by (auto simp: rtcp_write_sr_def rtcp_write_def thn_eq_Inr_iff)
  note i = sr_init_props [OF a(2)]
  have "28 \<le> RTCP_SR_HDR_LEN" by (simp add: RTCP_SR_HDR_LEN_def)
  note lp = sr_loop_ntp [OF a(3) this]
  from rtcp_fill_in_props [OF a(4)] have f: "\<forall>j. r + 3 < j \<longrightarrow> m' j = m3 j" by simp
  have "load32_be m' (r + 12) = load32_be m3 (r + 12)"
    by (rule load32_be_cong) (use f in simp)
  also have "\<dots> = load32_be m2 (r + 12)"
    by (rule load32_be_cong) (use lp in simp)
  finally have frac: "load32_be m' (r + 12) = usec2ntp (word_of_int (tv_usec now))"
    using i by simp
  have s1: "load32_be m' (r + 8) = load32_be m3 (r + 8)"
    by (rule load32_be_cong) (use f in simp)
  have sec: "load32_be m' (r + 8)
         = (case last_ntp l of
              Some v \<Rightarrow> ucast v
            | None \<Rightarrow> word_of_int (tv_sec now + GETTIMEOFDAY_TO_NTP_OFFSET))"
  proof (cases "last_ntp l")
    case (Some v)
    with lp s1 show ?thesis by simp
  next
    case None
    with lp have "load32_be m3 (r + 8) = load32_be m2 (r + 8)"
      by (intro load32_be_cong) simp
    with None s1 i show ?thesis by simp
  qed
  from frac sec rtcp_write_sr_agree [OF w]
  show "load32_be m' (r + 12) = usec2ntp (word_of_int (tv_usec now))
     \<and> load32_be m' (r + 8)
         = (case last_ntp l of
              Some v \<Rightarrow> ucast v
            | None \<Rightarrow> word_of_int (tv_sec now + GETTIMEOFDAY_TO_NTP_OFFSET))
     \<and> (\<exists>n'. rtcp_write_sr now (filter not_ntp l) m r = Inr (t, n') \<and> agree r m' n')"
    by simp
qed

theorem sr_ntp_overrides_seconds_only_witness:
  "\<exists>m' n'. rtcp_write_sr \<lparr>tv_sec = 5, tv_usec = 500000\<rparr>
              [Node (Some ''SR'') 0 None [], Node (Some ''ntp'') 7 None [],
               Node (Some ''ssrc'') 1 None []] (\<lambda>i. 0) 0 = Inr (28, m')
        \<and> load32_be m' 12 = usec2ntp 500000 \<and> load32_be m' 8 = 7
        \<and> rtcp_write_sr \<lparr>tv_sec = 5, tv_usec = 500000\<rparr>
              [Node (Some ''SR'') 0 None [], Node (Some ''ssrc'') 1 None []] (\<lambda>i. 0) 0
            = Inr (28, n')
        \<and> agree 0 m' n'"
proof -
  let ?now = "\<lparr>tv_sec = 5, tv_usec = 500000\<rparr>"
  let ?l = "[Node (Some ''SR'') 0 None [], Node (Some ''ntp'') 7 None [],
               Node (Some ''ssrc'') 1 None []]"
  obtain m' where a: "rtcp_write_sr ?now ?l (\<lambda>i. 0) 0 = Inr (28, m')"
    by (simp add: rtcp_defs mem_defs rtcp_common_init_eq sr_init_def sr_field_def)
  from sr_ntp_overrides_seconds_only [of ?now ?l "\<lambda>i. 0" 0 28 m'] a
  show ?thesis by (auto simp: not_ntp_def)
qed

section \<open>Fatal lines\<close>

text \<open>
  The names that the \<^verbatim>\<open>switch\<close> of \<^verbatim>\<open>rtcp_rr\<close> takes, the names that the loop of a record
  function takes (the name of the record, \<^verbatim>\<open>p\<close>, \<^verbatim>\<open>count\<close>, \<^verbatim>\<open>len\<close> and the fields of its own),
  and the names of \<^verbatim>\<open>rtcp_map\<close>.
\<close>

definition rr_block_keys :: "string list" where
  "rr_block_keys = [''ssrc'', ''fraction'', ''lost'', ''last_seq'', ''jit'', ''lsr'', ''dlsr'']"

definition own_keys :: "string \<Rightarrow> string list" where
  "own_keys name =
     (if name = ''SR'' then [''ssrc'', ''ntp'', ''ts'', ''psent'', ''osent'']
      else if name = ''RR'' then [''ssrc'']
      else [])"

definition record_keys :: "string \<Rightarrow> string list" where
  "record_keys name = name # ''p'' # ''count'' # ''len'' # own_keys name"

definition record_names :: "string list" where
  "record_names = [''SDES'', ''RR'', ''SR'', ''BYE'', ''APP'']"

text \<open>A report block with a leaf that \<^verbatim>\<open>rtcp_rr\<close> does not know.\<close>

definition fatal_block :: "node list \<Rightarrow> bool" where
  "fatal_block l =
     list_ex (\<lambda>n. case type n of Some t \<Rightarrow> t \<notin> set rr_block_keys | None \<Rightarrow> False) l"

text \<open>
  A record called \<open>name\<close> with a leaf of its own that its function does not know, or, when
  \<open>blocks\<close> is set, with such a report block (only \<^verbatim>\<open>SR\<close> and \<^verbatim>\<open>RR\<close> have report blocks).
\<close>

definition fatal_node :: "bool \<Rightarrow> string \<Rightarrow> node \<Rightarrow> bool" where
  "fatal_node blocks name n =
     (case type n of
        Some t \<Rightarrow> t \<notin> set (record_keys name)
      | None \<Rightarrow> blocks \<and> (name = ''SR'' \<or> name = ''RR'') \<and> fatal_block (list n))"

definition fatal_record :: "bool \<Rightarrow> string \<Rightarrow> node list \<Rightarrow> bool" where
  "fatal_record blocks name l = list_ex (fatal_node blocks name) l"

text \<open>The first name in a group that is the name of a record.\<close>

fun record_name :: "node list \<Rightarrow> string option" where
  "record_name [] = None"
| "record_name (n # ns) =
     (case type n of
        Some t \<Rightarrow> if t \<in> set record_names then Some t else record_name ns
      | None \<Rightarrow> record_name ns)"

text \<open>
  A group that names no record, or whose record is fatal; an \<^verbatim>\<open>APP\<close> record is never
  looked into.
\<close>

definition fatal_group :: "bool \<Rightarrow> node list \<Rightarrow> bool" where
  "fatal_group blocks l =
     (case record_name l of
        None \<Rightarrow> True
      | Some name \<Rightarrow> name \<noteq> ''APP'' \<and> fatal_record blocks name l)"

definition fatal_tree :: "bool \<Rightarrow> node list \<Rightarrow> bool" where
  "fatal_tree blocks ns = list_ex (\<lambda>n. list n \<noteq> [] \<and> fatal_group blocks (list n)) ns"

text \<open>
  The fatal conditions of a line: it does not start with \<^verbatim>\<open>sec.usec\<close> and a type name; the
  type name is neither \<^verbatim>\<open>RTP\<close> nor \<^verbatim>\<open>RTCP\<close>; or the tree of an \<^verbatim>\<open>RTCP\<close> line has a fatal group.
  With \<open>blocks\<close> unset these are the conditions at the level of the line, the group and
  the record only.
\<close>

definition fatal_line :: "bool \<Rightarrow> string \<Rightarrow> bool" where
  "fatal_line blocks text =
     (case sscanf_line text of
        Inl a \<Rightarrow> False
      | Inr None \<Rightarrow> True
      | Inr (Some (sec, usec, type_name)) \<Rightarrow>
          type_name \<noteq> ''RTP'' \<and>
          (type_name \<noteq> ''RTCP'' \<or>
           (case strstr text ''RTCP'' of
              None \<Rightarrow> False
            | Some i \<Rightarrow>
                (case parse (drop (i + 4) text) of
                   Inl a \<Rightarrow> False
                 | Inr ns \<Rightarrow> fatal_tree blocks ns))))"

text \<open>
  An outcome \<open>x\<close> agrees with a condition \<open>F\<close>: a value is returned only when \<open>F\<close> does not
  hold, and \<^verbatim>\<open>exit\<close> is called only when it holds, with the status 2 and a diagnostic.
\<close>

definition exits_iff :: "bool \<Rightarrow> abort + 'a \<Rightarrow> bool" where
  "exits_iff F x =
     (case x of
        Inr y \<Rightarrow> \<not> F
      | Inl Undefined \<Rightarrow> True
      | Inl (Exit c d) \<Rightarrow> F \<and> c = 2 \<and> d \<noteq> [])"

lemma exits_iff_simps [simp]:
  "exits_iff F (Inr y) = (\<not> F)"
  "exits_iff F (Inl Undefined) = True"
  "exits_iff F (Inl (Exit c d)) = (F \<and> c = 2 \<and> d \<noteq> [])"
  by (simp_all add: exits_iff_def)

lemma exits_iff_thn:
  assumes "exits_iff F x" "\<And>y. x = Inr y \<Longrightarrow> exits_iff G (f y)"
  shows "exits_iff (F \<or> G) (thn x f)"
proof (cases x)
  case (Inl a)
  with assms(1) show ?thesis by (cases a) simp_all
next
  case (Inr y)
  with assms show ?thesis by (cases "f y") (auto simp: exits_iff_def split: abort.splits)
qed

lemma no_exit_thn:
  "exits_iff False x \<Longrightarrow> (\<And>y. x = Inr y \<Longrightarrow> exits_iff False (f y)) \<Longrightarrow> exits_iff False (thn x f)"
  using exits_iff_thn [of False x False f] by simp

lemma exits_iff_thn_left:
  "exits_iff F x \<Longrightarrow> (\<And>y. x = Inr y \<Longrightarrow> exits_iff False (f y)) \<Longrightarrow> exits_iff F (thn x f)"
  using exits_iff_thn [of F x False f] by simp

lemma exits_iff_thn_right:
  "exits_iff False x \<Longrightarrow> (\<And>y. x = Inr y \<Longrightarrow> exits_iff G (f y)) \<Longrightarrow> exits_iff G (thn x f)"
  using exits_iff_thn [of False x G f] by simp

lemma poke_no_exit [simp]: "exits_iff False (poke m i b)"
  by (simp add: poke_def)

lemma peek_no_exit [simp]: "exits_iff False (peek m i)"
  by (simp add: peek_def)

lemma upd_byte_no_exit [simp]: "exits_iff False (upd_byte m i f)"
  unfolding upd_byte_def by (intro no_exit_thn) simp_all

lemma store16_be_no_exit [simp]: "exits_iff False (store16_be m i v)"
  unfolding store16_be_def by (intro no_exit_thn) simp_all

lemma store32_be_no_exit [simp]: "exits_iff False (store32_be m i v)"
  unfolding store32_be_def by (intro no_exit_thn) simp_all

lemma store32_host_no_exit [simp]: "exits_iff False (store32_host e m i v)"
  unfolding store32_host_def by (cases e) (simp, simp, intro no_exit_thn, simp_all)

lemma strcpy_no_exit [simp]: "exits_iff False (strcpy m i s)"
  by (induction s arbitrary: m i) (simp_all add: no_exit_thn)

lemma memset0_no_exit [simp]: "exits_iff False (memset0 m i n)"
  by (induction n arbitrary: m i) (simp_all add: no_exit_thn)

lemma hex_loop_no_exit [simp]: "exits_iff False (hex_loop s nib m buf len)"
  by (induction s arbitrary: nib m len) (simp_all add: no_exit_thn split: option.splits)

lemma hex_no_exit [simp]: "exits_iff False (hex s m buf)"
  by (simp add: hex_def)

subsection \<open>RTP lines never exit\<close>

lemma rtp_word_no_exit [simp]: "exits_iff False (rtp_word e w l)"
  unfolding rtp_word_def Let_def
  by (auto intro!: no_exit_thn simp: split_def)

lemma rtp_words_no_exit [simp]: "exits_iff False (rtp_words e ws l)"
  by (induction ws arbitrary: l) (simp_all add: no_exit_thn)

lemma rtp_finish_no_exit [simp]: "exits_iff False (rtp_finish l)"
  by (simp add: rtp_finish_def Let_def)

lemma rtp_no_exit [simp]: "exits_iff False (rtp e s m)"
  unfolding rtp_def by (intro no_exit_thn) simp_all

subsection \<open>The parser never exits\<close>

lemma thn_eq_Inl_iff:
  "thn x f = Inl a \<longleftrightarrow> x = Inl a \<or> (\<exists>y. x = Inr y \<and> f y = Inl a)"
  by (cases x) simp_all

lemma leaf_Inl: "leaf tmp = Inl a \<Longrightarrow> a = Undefined"
  by (auto simp: leaf_def Let_def split: option.splits if_splits)

lemma parse_loop_Inl: "parse_loop str level tmp inp = Inl a \<Longrightarrow> a = Undefined"
proof (induction str level tmp inp arbitrary: a rule: parse_loop.induct)
  case (1 str level tmp)
  then show ?case by simp
next
  case (2 str level tmp s ss)
  show ?case
    using "2.prems" "2.IH"
    by (auto simp: thn_eq_Inl_iff split: if_splits dest: leaf_Inl)
qed

lemma parse_loop_no_exit: "exits_iff False (parse_loop str level tmp s)"
  by (cases "parse_loop str level tmp s") (auto dest: parse_loop_Inl)

lemma parse_no_exit [simp]: "exits_iff False (parse s)"
  by (simp add: parse_def parse_loop_no_exit)

subsection \<open>RTCP lines\<close>

lemma rtcp_sdes_item_no_exit [simp]: "exits_iff False (rtcp_sdes_item t s m i)"
  unfolding rtcp_sdes_item_def
  by (cases s) (simp, simp, intro no_exit_thn, simp_all)

lemma rtcp_sdes_loop_no_exit [simp]: "exits_iff False (rtcp_sdes_loop l m sdes t)"
proof (induction l arbitrary: m t)
  case Nil
  show ?case by simp
next
  case (Cons n ns)
  show ?case
    by (cases "type n") (auto simp: Cons split_def intro!: no_exit_thn)
qed

lemma rtcp_sdes_no_exit [simp]: "exits_iff False (rtcp_sdes l m sdes)"
  unfolding rtcp_sdes_def
  by (auto simp: split_def Let_def intro!: no_exit_thn)

lemma rtcp_bye_loop_no_exit [simp]: "exits_iff False (rtcp_bye_loop l m bye)"
proof (induction l arbitrary: m)
  case Nil
  show ?case by simp
next
  case (Cons n ns)
  show ?case
    by (cases "type n") (auto simp: Cons intro!: no_exit_thn)
qed

lemma rtcp_bye_no_exit [simp]: "exits_iff False (rtcp_bye l m bye)"
  unfolding rtcp_bye_def by (intro no_exit_thn) simp_all

lemma rtcp_rr_loop_exits: "exits_iff (fatal_block l) (rtcp_rr_loop l m rr)"
proof (induction l arbitrary: m)
  case Nil
  show ?case by (simp add: fatal_block_def)
next
  case (Cons n ns)
  show ?case
  proof (cases "type n")
    case None
    with Cons [of m] show ?thesis by (simp add: fatal_block_def)
  next
    case (Some t)
    let ?step = "if t = ''ssrc'' then store32_be m rr (ucast (num n))
               else if t = ''fraction'' then poke m (rr + 4) (ucast (num n * 256))
               else if t = ''lost'' then
                 thn (poke m (rr + 5) (ucast (drop_bit 16 (num n)))) (\<lambda>m.
                 thn (poke m (rr + 6) (ucast (drop_bit 8 (num n)))) (\<lambda>m.
                 poke m (rr + 7) (ucast (num n))))
               else if t = ''last_seq'' then store32_be m (rr + 8) (ucast (num n))
               else if t = ''jit'' then store32_be m (rr + 12) (ucast (num n))
               else if t = ''lsr'' then store32_be m (rr + 16) (ucast (num n))
               else if t = ''dlsr'' then store32_be m (rr + 20) (ucast (num n))
               else Inl (Exit 2 (''Invalid RTCP RR type '' @ t @ [CHR 0x0A]))"
    have "exits_iff (t \<notin> set rr_block_keys) ?step"
    proof (cases "t \<in> set rr_block_keys")
      case True
      then have "t = ''ssrc'' \<or> t = ''fraction'' \<or> t = ''lost'' \<or> t = ''last_seq''
          \<or> t = ''jit'' \<or> t = ''lsr'' \<or> t = ''dlsr''"
        by (simp add: rr_block_keys_def)
      then have "exits_iff False ?step"
        by (elim disjE) (simp_all add: no_exit_thn)
      with True show ?thesis by simp
    next
      case False
      then have "?step = Inl (Exit 2 (''Invalid RTCP RR type '' @ t @ [CHR 0x0A]))"
        by (simp add: rr_block_keys_def)
      with False show ?thesis by simp
    qed
    then have "exits_iff (t \<notin> set rr_block_keys \<or> fatal_block ns)
        (thn ?step (\<lambda>m. rtcp_rr_loop ns m rr))"
      by (rule exits_iff_thn) (rule Cons)
    with Some show ?thesis by (simp add: fatal_block_def)
  qed
qed

lemma rtcp_rr_exits: "exits_iff (fatal_block l) (rtcp_rr l m rr)"
  unfolding rtcp_rr_def by (rule exits_iff_thn_left) (simp_all add: rtcp_rr_loop_exits)

text \<open>The leaves that a record function takes besides \<^verbatim>\<open>p\<close>, \<^verbatim>\<open>count\<close> and \<^verbatim>\<open>len\<close>.\<close>

definition takes :: "(string \<Rightarrow> u64 \<Rightarrow> mem \<Rightarrow> int \<Rightarrow> (abort + mem) option) \<Rightarrow> string list \<Rightarrow> bool"
  where
  "takes field keys =
     (\<forall>t v m r. case field t v m r of
                  Some res \<Rightarrow> exits_iff False res \<and> t \<in> set keys
                | None \<Rightarrow> t \<notin> set keys)"

lemma takes_no_field: "takes no_field []"
  by (simp add: takes_def no_field_def)

lemma takes_rr_field: "takes rr_field [''ssrc'']"
  by (simp add: takes_def rr_field_def)

lemma takes_sr_field: "takes sr_field [''ssrc'', ''ntp'', ''ts'', ''psent'', ''osent'']"
  by (simp add: takes_def sr_field_def)

lemma rtcp_leaf_exits:
  assumes "takes field keys"
  shows "exits_iff (t \<notin> set (''p'' # ''count'' # ''len'' # keys)) (rtcp_leaf field t v m r)"
proof -
  from assms have k: "case field t v m r of
                  Some res \<Rightarrow> exits_iff False res \<and> t \<in> set keys
                | None \<Rightarrow> t \<notin> set keys"
    unfolding takes_def by blast
  show ?thesis
  proof (cases "field t v m r")
    case None
    with k show ?thesis by (simp add: rtcp_leaf_def)
  next
    case (Some res)
    with k show ?thesis by (simp add: rtcp_leaf_def)
  qed
qed

lemma rtcp_write_loop_exits:
  assumes f: "takes field keys" and p: "\<And>l m r. exits_iff (B l) (part l m r)"
    and F: "\<And>n. F n = (case type n of
                     Some t \<Rightarrow> t \<noteq> name \<and> t \<notin> set (''p'' # ''count'' # ''len'' # keys)
                   | None \<Rightarrow> B (list n))"
  shows "exits_iff (list_ex F l) (rtcp_write_loop name field part r l t0 c0 m)"
proof (induction l arbitrary: t0 c0 m)
  case Nil
  show ?case by simp
next
  case (Cons n ns)
  show ?case
  proof (cases "type n")
    case None
    have "exits_iff (B (list n) \<or> list_ex F ns)
        (thn (part (list n) m (r + t0)) (\<lambda>(len, m).
          rtcp_write_loop name field part r ns (t0 + len) (c0 + 1) m))"
      by (rule exits_iff_thn, rule p) (simp add: split_def Cons)
    with None F [of n] show ?thesis by simp
  next
    case (Some t)
    show ?thesis
    proof (cases "t = name")
      case True
      with Some Cons [of t0 c0 m] F [of n] show ?thesis by simp
    next
      case False
      have "exits_iff (t \<notin> set (''p'' # ''count'' # ''len'' # keys) \<or> list_ex F ns)
          (thn (rtcp_leaf field t (num n) m r)
             (\<lambda>m. rtcp_write_loop name field part r ns t0 c0 m))"
        by (rule exits_iff_thn, rule rtcp_leaf_exits [OF f], rule Cons)
      with Some False F [of n] show ?thesis by simp
    qed
  qed
qed

lemma rtcp_common_init_no_exit [simp]: "exits_iff False (rtcp_common_init pt m r)"
  unfolding rtcp_common_init_def by (intro no_exit_thn) simp_all

lemma rtcp_fill_in_no_exit [simp]: "exits_iff False (rtcp_fill_in r t c m)"
  unfolding rtcp_fill_in_def by (intro no_exit_thn) simp_all

lemma sr_init_no_exit [simp]: "exits_iff False (sr_init now m r)"
  unfolding sr_init_def by (intro no_exit_thn) simp_all

lemma rtcp_write_exits:
  assumes f: "takes field keys" and p: "\<And>l m r. exits_iff (B l) (part l m r)"
    and i: "\<And>m r. exits_iff False (init m r)"
    and F: "\<And>n. F n = (case type n of
                     Some t \<Rightarrow> t \<noteq> name \<and> t \<notin> set (''p'' # ''count'' # ''len'' # keys)
                   | None \<Rightarrow> B (list n))"
  shows "exits_iff (list_ex F l) (rtcp_write pt name hdr_len init field part l m r)"
  unfolding rtcp_write_def
  apply (rule exits_iff_thn_right, simp)
  apply (rule exits_iff_thn_right, rule i)
  apply (rule exits_iff_thn_left, rule rtcp_write_loop_exits [OF f p F])
  apply (simp add: split_def)
  done

lemma fatal_node_plain:
  "name \<noteq> ''SR'' \<Longrightarrow> name \<noteq> ''RR'' \<Longrightarrow>
   fatal_node True name n = (case type n of
                     Some t \<Rightarrow> t \<noteq> name \<and> t \<notin> set (''p'' # ''count'' # ''len'' # [])
                   | None \<Rightarrow> False)"
  by (simp add: fatal_node_def record_keys_def own_keys_def split: option.splits)

lemma fatal_node_rr:
  "fatal_node True ''RR'' n = (case type n of
                     Some t \<Rightarrow> t \<noteq> ''RR'' \<and> t \<notin> set (''p'' # ''count'' # ''len'' # [''ssrc''])
                   | None \<Rightarrow> fatal_block (list n))"
  by (simp add: fatal_node_def record_keys_def own_keys_def split: option.splits)

lemma fatal_node_sr:
  "fatal_node True ''SR'' n = (case type n of
                     Some t \<Rightarrow> t \<noteq> ''SR'' \<and> t \<notin> set (''p'' # ''count'' # ''len'' #
                                  [''ssrc'', ''ntp'', ''ts'', ''psent'', ''osent''])
                   | None \<Rightarrow> fatal_block (list n))"
  by (simp add: fatal_node_def record_keys_def own_keys_def split: option.splits)

lemma rtcp_write_sdes_exits: "exits_iff (fatal_record True ''SDES'' l) (rtcp_write_sdes l m r)"
  unfolding rtcp_write_sdes_def fatal_record_def
  by (rule rtcp_write_exits [OF takes_no_field, where B = "\<lambda>l. False"])
    (simp_all add: fatal_node_plain)

lemma rtcp_write_bye_exits: "exits_iff (fatal_record True ''BYE'' l) (rtcp_write_bye l m r)"
  unfolding rtcp_write_bye_def fatal_record_def
  by (rule rtcp_write_exits [OF takes_no_field, where B = "\<lambda>l. False"])
    (simp_all add: fatal_node_plain)

lemma rtcp_write_rr_exits: "exits_iff (fatal_record True ''RR'' l) (rtcp_write_rr l m r)"
  unfolding rtcp_write_rr_def fatal_record_def
  by (rule rtcp_write_exits [OF takes_rr_field, where B = fatal_block])
    (simp_all add: fatal_node_rr rtcp_rr_exits)

lemma rtcp_write_sr_exits: "exits_iff (fatal_record True ''SR'' l) (rtcp_write_sr now l m r)"
  unfolding rtcp_write_sr_def fatal_record_def
  by (rule rtcp_write_exits [OF takes_sr_field, where B = fatal_block])
    (simp_all add: fatal_node_sr rtcp_rr_exits)

lemma rtcp_map_None: "rtcp_map now t = None \<longleftrightarrow> t \<notin> set record_names"
  by (simp add: record_names_def)

lemma rtcp_dispatch_record_name:
  "rtcp_dispatch now l = (case record_name l of None \<Rightarrow> None | Some t \<Rightarrow> rtcp_map now t)"
proof (induction l)
  case Nil
  show ?case by simp
next
  case (Cons n ns)
  show ?case
  proof (cases "type n")
    case None
    with Cons show ?thesis by simp
  next
    case (Some t)
    show ?thesis
    proof (cases "rtcp_map now t")
      case None
      with Some Cons rtcp_map_None [of now t] show ?thesis by (simp del: rtcp_map.simps)
    next
      case w: (Some w)
      with Some rtcp_map_None [of now t] show ?thesis by (simp del: rtcp_map.simps)
    qed
  qed
qed

lemma record_name_known: "record_name l = Some t \<Longrightarrow> t \<in> set record_names"
  by (induction l) (simp_all split: option.splits if_splits)

lemma rtcp_packet_exits: "exits_iff (fatal_group True l) (rtcp_packet now l m r)"
proof (cases "record_name l")
  case None
  then show ?thesis
    by (simp add: rtcp_packet_def rtcp_dispatch_record_name fatal_group_def)
next
  case (Some t)
  from record_name_known [OF this]
  consider "t = ''SDES''" | "t = ''RR''" | "t = ''SR''" | "t = ''BYE''" | "t = ''APP''"
    by (auto simp: record_names_def)
  then show ?thesis
  proof cases
    case 1
    with Some rtcp_write_sdes_exits [of l m r] show ?thesis
      by (simp add: rtcp_packet_def rtcp_dispatch_record_name fatal_group_def)
  next
    case 2
    with Some rtcp_write_rr_exits [of l m r] show ?thesis
      by (simp add: rtcp_packet_def rtcp_dispatch_record_name fatal_group_def)
  next
    case 3
    with Some rtcp_write_sr_exits [of l now m r] show ?thesis
      by (simp add: rtcp_packet_def rtcp_dispatch_record_name fatal_group_def)
  next
    case 4
    with Some rtcp_write_bye_exits [of l m r] show ?thesis
      by (simp add: rtcp_packet_def rtcp_dispatch_record_name fatal_group_def)
  next
    case 5
    with Some show ?thesis
      by (simp add: rtcp_packet_def rtcp_dispatch_record_name fatal_group_def
          rtcp_write_app_def)
  qed
qed

lemma rtcp_loop_exits: "exits_iff (fatal_tree True ns) (rtcp_loop clock i ns m t)"
proof (induction ns arbitrary: i m t)
  case Nil
  show ?case by (simp add: fatal_tree_def)
next
  case (Cons n ns)
  show ?case
  proof (cases "list n = []")
    case True
    with Cons [of "Suc i" m t] show ?thesis by (simp add: fatal_tree_def)
  next
    case False
    have "exits_iff (fatal_group True (list n) \<or> fatal_tree True ns)
        (thn (rtcp_packet (clock i) (list n) m t) (\<lambda>(len, m).
          rtcp_loop clock (Suc i) ns m (t + len)))"
      by (rule exits_iff_thn) (auto simp: rtcp_packet_exits Cons)
    with False show ?thesis by (simp add: fatal_tree_def)
  qed
qed

lemma rtcp_exits:
  "exits_iff (case parse s of Inl a \<Rightarrow> False | Inr ns \<Rightarrow> fatal_tree True ns) (rtcp clock s m)"
proof (cases "parse s")
  case (Inl a)
  with parse_no_exit [of s] show ?thesis by (cases a) (simp_all add: rtcp_def)
next
  case (Inr ns)
  then show ?thesis by (simp add: rtcp_def rtcp_loop_exits)
qed

lemma generate_exits: "exits_iff (fatal_line True s) (generate e clock s data)"
proof (cases "sscanf_line s")
  case (Inl a)
  then have "a = Undefined"
    by (auto simp: sscanf_line_def Let_def split: option.splits if_splits)
  with Inl show ?thesis by (simp add: generate_def fatal_line_def)
next
  case (Inr conv)
  show ?thesis
  proof (cases conv)
    case None
    with Inr show ?thesis by (simp add: generate_def fatal_line_def)
  next
    case (Some v)
    then obtain sec usec ty where v: "conv = Some (sec, usec, ty)" by (cases v) auto
    show ?thesis
    proof (cases "ty = ''RTP''")
      case True
      have "exits_iff False (case strstr s ''RTP'' of
                None \<Rightarrow> Inl Undefined
              | Some i \<Rightarrow>
                  thn (rtp e (drop (i + 3) s) data) (\<lambda>(len, m).
                  Inr (len, \<lparr>tv_sec = sec, tv_usec = usec\<rparr>, 0 :: int, m)))"
        by (auto split: option.splits simp: split_def intro!: no_exit_thn)
      with Inr v True show ?thesis by (simp add: generate_def fatal_line_def)
    next
      case False
      note notrtp = this
      show ?thesis
      proof (cases "ty = ''RTCP''")
        case False
        with Inr v notrtp show ?thesis by (simp add: generate_def fatal_line_def)
      next
        case True
        show ?thesis
        proof (cases "strstr s ''RTCP''")
          case None
          with Inr v True show ?thesis by (simp add: generate_def fatal_line_def)
        next
          case (Some i)
          have "exits_iff (case parse (drop (i + 4) s) of Inl a \<Rightarrow> False
                           | Inr ns \<Rightarrow> fatal_tree True ns)
              (thn (rtcp clock (drop (i + 4) s) data) (\<lambda>(len, m).
                  Inr (len, \<lparr>tv_sec = sec, tv_usec = usec\<rparr>, 1 :: int, m)))"
            by (rule exits_iff_thn_left) (auto simp: rtcp_exits)
          with Inr v True Some show ?thesis by (simp add: generate_def fatal_line_def)
        qed
      qed
    qed
  qed
qed

text \<open>
  C7 (as amended). \<^verbatim>\<open>generate\<close> calls \<^verbatim>\<open>exit\<close> only with the status 2, after a diagnostic,
  and only for a line with a fatal condition; and for a line with a fatal condition it
  calls \<^verbatim>\<open>exit(2)\<close>, unless the behaviour of the line is undefined before it gets there.
  The fatal conditions are: \<^verbatim>\<open>sscanf\<close> converts fewer than the three items \<^verbatim>\<open>sec.usec\<close> and
  type name; the type name is neither \<^verbatim>\<open>RTP\<close> nor \<^verbatim>\<open>RTCP\<close>; a parenthesised group of an \<^verbatim>\<open>RTCP\<close>
  line names none of \<^verbatim>\<open>SDES\<close>, \<^verbatim>\<open>RR\<close>, \<^verbatim>\<open>SR\<close>, \<^verbatim>\<open>BYE\<close>, \<^verbatim>\<open>APP\<close>; an \<^verbatim>\<open>SDES\<close>, \<^verbatim>\<open>RR\<close>, \<^verbatim>\<open>SR\<close> or \<^verbatim>\<open>BYE\<close>
  record has a leaf of its own that is neither its name, nor \<^verbatim>\<open>p\<close>, \<^verbatim>\<open>count\<close>, \<^verbatim>\<open>len\<close>, nor
  one of its fields; or a report block of an \<^verbatim>\<open>RR\<close> or \<^verbatim>\<open>SR\<close> record has a leaf other than
  \<^verbatim>\<open>ssrc\<close>, \<^verbatim>\<open>fraction\<close>, \<^verbatim>\<open>lost\<close>, \<^verbatim>\<open>last_seq\<close>, \<^verbatim>\<open>jit\<close>, \<^verbatim>\<open>lsr\<close>, \<^verbatim>\<open>dlsr\<close>. No packet is returned
  for such a line.
\<close>

theorem fatal_line_exits:
  "(generate e clock s data = Inl (Exit c d) \<longrightarrow> c = 2 \<and> d \<noteq> [] \<and> fatal_line True s)
   \<and> (fatal_line True s \<longrightarrow>
        (\<exists>d. generate e clock s data = Inl (Exit 2 d)) \<or> generate e clock s data = Inl Undefined)"
proof (cases "generate e clock s data")
  case (Inl a)
  with generate_exits [of s e clock data] show ?thesis by (cases a) auto
next
  case (Inr y)
  with generate_exits [of s e clock data] show ?thesis by simp
qed

theorem fatal_line_exits_witness:
  "generate False (\<lambda>i. \<lparr>tv_sec = 0, tv_usec = 0\<rparr>) ''0.0 RTCP (SR bogus=1 )'' (\<lambda>i. 0)
     = Inl (Exit 2 (''Invalid RTCP type bogus'' @ [CHR 0x0A]))
   \<and> fatal_line True ''0.0 RTCP (SR bogus=1 )''
   \<and> fatal_line True ''0.0 FOO''
   \<and> (\<exists>d. generate False (\<lambda>i. \<lparr>tv_sec = 0, tv_usec = 0\<rparr>) ''0.0 FOO'' (\<lambda>i. 0)
            = Inl (Exit 2 d))"
proof -
  let ?g = "generate False (\<lambda>i. \<lparr>tv_sec = 0, tv_usec = 0\<rparr>)"
  have a: "?g ''0.0 RTCP (SR bogus=1 )'' (\<lambda>i. 0)
      = Inl (Exit 2 (''Invalid RTCP type bogus'' @ [CHR 0x0A]))"
    by (simp add: generate_def sscanf_line_def scan_ld_def rtcp_def rtcp_packet_def
        parse_defs clib_defs rtcp_defs mem_defs rtcp_common_init_eq sr_init_def sr_field_def)
  have b: "fatal_line True ''0.0 FOO''"
    by (simp add: fatal_line_def sscanf_line_def scan_ld_def clib_defs)
  have c: "?g ''0.0 FOO'' (\<lambda>i. 0) \<noteq> Inl Undefined"
    by (simp add: generate_def sscanf_line_def scan_ld_def clib_defs)
  from fatal_line_exits [of False "\<lambda>i. \<lparr>tv_sec = 0, tv_usec = 0\<rparr>"
      "''0.0 RTCP (SR bogus=1 )''" "\<lambda>i. 0" 2 "''Invalid RTCP type bogus'' @ [CHR 0x0A]"] a
    fatal_line_exits [of False "\<lambda>i. \<lparr>tv_sec = 0, tv_usec = 0\<rparr>" "''0.0 FOO''" "\<lambda>i. 0"] b c
  show ?thesis by simp
qed

text \<open>
  The line \<^verbatim>\<open>0.0 RTCP (RR (foo=1 ))\<close> starts with a time and the type name \<^verbatim>\<open>RTCP\<close>, its one
  group names the record \<^verbatim>\<open>RR\<close>, and the record has no leaf of its own but its name; the
  unknown leaf \<^verbatim>\<open>foo\<close> stands in a report block, and \<^verbatim>\<open>rtcp_rr\<close> exits for it.
\<close>

theorem fatal_line_exits_counterexample:
  "generate False (\<lambda>i. \<lparr>tv_sec = 0, tv_usec = 0\<rparr>) ''0.0 RTCP (RR (foo=1 ))'' (\<lambda>i. 0)
     = Inl (Exit 2 (''Invalid RTCP RR type foo'' @ [CHR 0x0A]))
   \<and> \<not> fatal_line False ''0.0 RTCP (RR (foo=1 ))''"
  by (simp add: generate_def fatal_line_def fatal_tree_def fatal_group_def fatal_record_def fatal_node_def fatal_block_def
      record_keys_def own_keys_def record_names_def
      sscanf_line_def scan_ld_def rtcp_def rtcp_packet_def
      parse_defs clib_defs rtcp_defs mem_defs rtcp_common_init_eq)

section \<open>send_handler\<close>














section \<open>The pacer, as it is specified\<close>










section \<open>The pacer sends the logical lines in their order\<close>














section \<open>The tree parser drops a token that no white space follows\<close>

text \<open>
  A \<open>plain\<close> text has no closing parenthesis and no white space; a \<open>flat\<close> text has no
  parenthesis and no quotation mark.
\<close>

definition plain :: "string \<Rightarrow> bool" where
  "plain tok = (\<forall>c \<in> set tok. c \<noteq> CHR '')'' \<and> \<not> isspace c)"

definition flat :: "string \<Rightarrow> bool" where
  "flat g = (\<forall>c \<in> set g. c \<noteq> CHR ''('' \<and> c \<noteq> CHR '')'' \<and> c \<noteq> CHR 0x22)"

lemma parse_loop_plain:
  "plain tok \<Longrightarrow> parse_loop str level tmp tok = Inr ns \<Longrightarrow> ns = []"
  by (induction tok arbitrary: str level tmp ns) (auto simp: plain_def split: if_splits)

lemma parse_loop_plain_fits:
  "plain tok \<Longrightarrow> length tmp + length tok \<le> TMP_SIZE \<Longrightarrow> parse_loop str level tmp tok = Inr []"
  by (induction tok arbitrary: str level tmp) (auto simp: plain_def split: if_splits)

lemma parse_loop_append_plain:
  "parse_loop str level tmp (inp @ tok) = Inr ns \<Longrightarrow> plain tok
   \<Longrightarrow> parse_loop str level tmp inp = Inr ns"
proof (induction str level tmp inp arbitrary: ns rule: parse_loop.induct)
  case (1 str level tmp)
  then show ?case by (auto dest: parse_loop_plain)
next
  case (2 str level tmp s ss)
  show ?case
    using "2.prems" "2.IH"
    by (auto simp: thn_eq_Inr_iff split: if_splits)
qed

lemma parse_loop_append_plain_fits:
  "parse_loop str level tmp inp = Inr ns \<Longrightarrow> plain tok
   \<Longrightarrow> length tmp + length inp + length tok \<le> TMP_SIZE
   \<Longrightarrow> parse_loop str level tmp (inp @ tok) = Inr ns"
proof (induction str level tmp inp arbitrary: ns rule: parse_loop.induct)
  case (1 str level tmp)
  then show ?case by (auto simp: parse_loop_plain_fits)
next
  case (2 str level tmp s ss)
  show ?case
    using "2.prems" "2.IH"
    by (auto simp: thn_eq_Inr_iff split: if_splits)
qed

lemma parse_loop_no_space:
  "parse_loop str level tmp inp = Inr ns \<Longrightarrow> \<forall>c \<in> set inp. \<not> isspace c
   \<Longrightarrow> \<forall>n \<in> set ns. type n = None"
proof (induction str level tmp inp arbitrary: ns rule: parse_loop.induct)
  case (1 str level tmp)
  then show ?case by simp
next
  case (2 str level tmp s ss)
  show ?case
    using "2.prems" "2.IH"
    by (auto simp: thn_eq_Inr_iff split: if_splits)
qed

lemma parse_loop_group:
  "flat g \<Longrightarrow> length tmp + length g < TMP_SIZE
   \<Longrightarrow> parse_loop False 1 tmp (g @ '')'') =
       thn (parse_loop False 0 [] (tmp @ g)) (\<lambda>l. Inr [Node None 0 None l])"
  by (induction g arbitrary: tmp) (auto simp: flat_def)

lemma parse_group:
  "flat g \<Longrightarrow> length g < TMP_SIZE
   \<Longrightarrow> parse (''('' @ g @ '')'') = thn (parse g) (\<lambda>l. Inr [Node None 0 None l])"
  using parse_loop_group [of g "[]"] by (simp add: parse_def)

text \<open>
  C4. \<^verbatim>\<open>parse\<close> makes a leaf only at a white space character: a text without white space
  gives no leaf, and a token at the end of the text (\<open>tok\<close>, with no white space and no
  closing parenthesis) gives no node, so that the nodes of \<open>inp @ tok\<close> are those of \<open>inp\<close>.
  \<^verbatim>\<open>parse("ssrc=0x1")\<close> is the empty list. The text of a group is what stands between its
  parentheses; when a token ends it, the children of the group are those of the text
  before the token: in \<^verbatim>\<open>(BYE (ssrc=0x1))\<close> the inner group has no child. (A group whose
  text ends in white space, \<^verbatim>\<open>(ssrc=0x1 )\<close>, keeps the leaf.)
\<close>

theorem parse_drops_trailing_token:
  "parse ''ssrc=0x1'' = Inr []
   \<and> (plain tok \<and> parse (inp @ tok) = Inr ns \<longrightarrow> parse inp = Inr ns)
   \<and> (plain tok \<and> parse inp = Inr ns \<and> length inp + length tok \<le> TMP_SIZE
        \<longrightarrow> parse (inp @ tok) = Inr ns)
   \<and> ((\<forall>c \<in> set inp. \<not> isspace c) \<and> parse inp = Inr ns \<longrightarrow> (\<forall>n \<in> set ns. type n = None))
   \<and> (flat body \<and> flat end_tok \<and> plain end_tok \<and> length body + length end_tok < TMP_SIZE
        \<and> parse (''('' @ body @ end_tok @ '')'') = Inr gs
        \<longrightarrow> (\<exists>l. parse body = Inr l \<and> gs = [Node None 0 None l]))
   \<and> parse ''(BYE (ssrc=0x1))''
       = Inr [Node None 0 None [Node (Some ''BYE'') 0 None [], Node None 0 None []]]
   \<and> parse ''(ssrc=0x1 )'' = Inr [Node None 0 None [Node (Some ''ssrc'') 1 None []]]"
proof -
  have a: "parse ''ssrc=0x1'' = Inr []"
    by (simp add: parse_defs isspace_def)
  have b: "plain tok \<and> parse (inp @ tok) = Inr ns \<longrightarrow> parse inp = Inr ns"
    using parse_loop_append_plain [of False 0 "[]" inp tok ns] by (simp add: parse_def)
  have c: "plain tok \<and> parse inp = Inr ns \<and> length inp + length tok \<le> TMP_SIZE
        \<longrightarrow> parse (inp @ tok) = Inr ns"
    using parse_loop_append_plain_fits [of False 0 "[]" inp ns tok] by (simp add: parse_def)
  have d: "(\<forall>c \<in> set inp. \<not> isspace c) \<and> parse inp = Inr ns \<longrightarrow> (\<forall>n \<in> set ns. type n = None)"
    using parse_loop_no_space [of False 0 "[]" inp ns] by (simp add: parse_def)
  have e: "flat body \<and> flat end_tok \<and> plain end_tok \<and> length body + length end_tok < TMP_SIZE
        \<and> parse (''('' @ body @ end_tok @ '')'') = Inr gs
        \<longrightarrow> (\<exists>l. parse body = Inr l \<and> gs = [Node None 0 None l])"
  proof (intro impI, elim conjE)
    assume h: "flat body" "flat end_tok" "plain end_tok" "length body + length end_tok < TMP_SIZE"
      "parse (''('' @ body @ end_tok @ '')'') = Inr gs"
    have "flat (body @ end_tok)" using h(1,2) by (auto simp: flat_def)
    from parse_group [OF this] h(4,5)
    have "thn (parse (body @ end_tok)) (\<lambda>l. Inr [Node None 0 None l]) = Inr gs" by simp
    then obtain l where l: "parse (body @ end_tok) = Inr l" "gs = [Node None 0 None l]"
      by (auto simp: thn_eq_Inr_iff)
    from parse_loop_append_plain [of False 0 "[]" body end_tok l] l(1) h(3)
    have "parse body = Inr l" by (simp add: parse_def)
    with l(2) show "\<exists>l. parse body = Inr l \<and> gs = [Node None 0 None l]" by blast
  qed
  have f: "parse ''(BYE (ssrc=0x1))''
       = Inr [Node None 0 None [Node (Some ''BYE'') 0 None [], Node None 0 None []]]"
    by (simp add: parse_defs isspace_def strchr_def)
  have g: "parse ''(ssrc=0x1 )'' = Inr [Node None 0 None [Node (Some ''ssrc'') 1 None []]]"
    by (simp add: parse_defs clib_defs)
  from a b c d e f g show ?thesis by blast
qed

theorem parse_drops_trailing_token_witness:
  "plain ''cname=x'' \<and> flat ''src=1 '' \<and> flat ''cname=x''
   \<and> parse ''(a)(b=1)'' = Inr [Node None 0 None [], Node None 0 None []]
   \<and> parse ''src=1 cname=x'' = Inr [Node (Some ''src'') 1 None []]
   \<and> parse ''src=1 '' = Inr [Node (Some ''src'') 1 None []]
   \<and> parse ''(src=1 cname=x)'' = Inr [Node None 0 None [Node (Some ''src'') 1 None []]]"
  using parse_drops_trailing_token [where tok = "''cname=x''" and inp = "''src=1 ''"
      and ns = "[Node (Some ''src'') 1 None []]" and body = "''src=1 ''"
      and end_tok = "''cname=x''" and gs = "[Node None 0 None [Node (Some ''src'') 1 None []]]"]
    parse_drops_trailing_token [where inp = "''(a)(b=1)''"
      and ns = "[Node None 0 None [], Node None 0 None []]"]
  by (simp add: parse_defs clib_defs plain_def flat_def)

section \<open>CSRC tokens of an RTP line\<close>

text \<open>The four bytes of a 32-bit value, the most significant first.\<close>

definition be32 :: "u32 \<Rightarrow> byte list" where
  "be32 v = [ucast (drop_bit 24 v), ucast (drop_bit 16 v), ucast (drop_bit 8 v), ucast v]"

lemma store32_host_bytes:
  assumes "0 \<le> i" "i + 3 < PACKET_SIZE"
  shows "\<exists>m'. store32_host big_endian m i v = Inr m'
     \<and> bytes m' i 4 = (if big_endian then be32 v else rev (be32 v))
     \<and> (\<forall>j. j < i \<or> i + 3 < j \<longrightarrow> m' j = m j)"
  using assms
  by (cases big_endian) (auto simp: store32_host_def store32_be_def poke_def be32_def)

lemma csrc_key_distinct:
  "take 4 key = ''csrc'' \<Longrightarrow>
     key \<noteq> ''ts'' \<and> key \<noteq> ''seq'' \<and> key \<noteq> ''pt'' \<and> key \<noteq> ''ssrc'' \<and> key \<noteq> ''p''
     \<and> key \<noteq> ''m'' \<and> key \<noteq> ''x'' \<and> key \<noteq> ''v'' \<and> key \<noteq> ''cc''"
  by auto

text \<open>
  C2 (as amended). In the loop of \<^verbatim>\<open>rtp\<close>, a token \<open>word\<close> with an \<^verbatim>\<open>=\<close> whose name (the text
  before the first \<^verbatim>\<open>=\<close>) begins with \<^verbatim>\<open>csrc\<close> stores its value in the CSRC list slot \<open>k\<close>,
  the four bytes at offset \<open>12 + 4 * k\<close> of the packet, where \<open>k\<close> is what \<^verbatim>\<open>atoi\<close> reads from
  the sixth character of the name on; the slot holds the four bytes of the value, and
  the token changes no other byte of the packet and neither the payload length, the
  extension length nor the length override. So \<^verbatim>\<open>csrc[1]=5\<close> writes slot 1, and \<^verbatim>\<open>csrc1=5\<close>
  writes slot 0. (The slot must lie in the packet buffer.)
\<close>

theorem rtp_csrc_token:
  assumes eq: "strchr word CHR ''='' = Some e"
    and key: "take 4 (take e word) = ''csrc''"
    and k: "k = atoi (word_from 5 word)" "0 \<le> k" "12 + 4 * k + 3 < PACKET_SIZE"
  shows "\<exists>l'. rtp_word big_endian word l = Inr l'
     \<and> (bytes (packet l') (12 + 4 * k) 4 = be32 (fst (parse_uint word))
        \<or> bytes (packet l') (12 + 4 * k) 4 = rev (be32 (fst (parse_uint word))))
     \<and> (\<forall>i. i < 12 + 4 * k \<or> 12 + 4 * k + 3 < i \<longrightarrow> packet l' i = packet l i)
     \<and> pl l' = pl l \<and> ext_pl l' = ext_pl l \<and> length' l' = length' l"
proof -
  define key' where "key' = take e word"
  have key4: "take 4 key' = ''csrc''"
    using key by (simp only: key'_def)
  note ne = csrc_key_distinct [OF key4]
  have pu: "parse_uint word = (ucast (strtoul (drop (e + 1) word) 0), key')"
    by (simp add: parse_uint_def eq key'_def)
  from k(2,3) have b: "0 \<le> 12 + 4 * k" "12 + 4 * k + 3 < PACKET_SIZE" by simp_all
  from store32_host_bytes [OF b, of big_endian "packet l" "fst (parse_uint word)"]
  obtain m' where m':
    "store32_host big_endian (packet l) (12 + 4 * k) (fst (parse_uint word)) = Inr m'"
    "bytes m' (12 + 4 * k) 4 =
       (if big_endian then be32 (fst (parse_uint word)) else rev (be32 (fst (parse_uint word))))"
    "\<forall>j. j < 12 + 4 * k \<or> 12 + 4 * k + 3 < j \<longrightarrow> m' j = packet l j"
    by blast
  have "rtp_word big_endian word l
      = Inr (l\<lparr>packet := m', cc := (if k > cc l then k else cc l)\<rparr>)"
    using ne key4 k(1,2) m'(1) by (simp add: rtp_word_def pu Let_def)
  then show ?thesis using m'(2,3) by (cases big_endian) auto
qed

theorem rtp_csrc_token_witness:
  "strchr ''csrc[1]=5'' CHR ''='' = Some 7 \<and> take 4 (take 7 ''csrc[1]=5'') = ''csrc''
   \<and> atoi (word_from 5 ''csrc[1]=5'') = 1 \<and> atoi (word_from 5 ''csrc1=5'') = 0
   \<and> (\<exists>l'. rtp_word True ''csrc[1]=5''
               \<lparr>packet = (\<lambda>i. 0), pl = 0, ext_pl = 0, cc = 0, length' = 0\<rparr> = Inr l'
          \<and> bytes (packet l') 16 4 = [0, 0, 0, 5])
   \<and> (\<exists>l'. rtp_word True ''csrc1=5''
               \<lparr>packet = (\<lambda>i. 0), pl = 0, ext_pl = 0, cc = 0, length' = 0\<rparr> = Inr l'
          \<and> bytes (packet l') 12 4 = [0, 0, 0, 5])"
  using rtp_csrc_token [of "''csrc[1]=5''" 7 1 True
      "\<lparr>packet = (\<lambda>i. 0), pl = 0, ext_pl = 0, cc = 0, length' = 0\<rparr>"]
    rtp_csrc_token [of "''csrc1=5''" 5 0 True
      "\<lparr>packet = (\<lambda>i. 0), pl = 0, ext_pl = 0, cc = 0, length' = 0\<rparr>"]
  by (simp add: clib_defs mem_defs rtp_defs be32_def Let_def)

text \<open>
  The line \<^verbatim>\<open>0.0 RTP csrc1=5\<close> has one CSRC token and no \<^verbatim>\<open>cc=\<close>. Slot 1 and a CC of 2 would
  make a packet of 20 bytes that starts with \<^verbatim>\<open>82\<close>; the code sends 12 bytes with a CC of 0,
  so no CSRC at all. Written \<^verbatim>\<open>csrc[1]=5\<close>, the token gives a CC of 1 and 16 bytes: slot 1
  is not in the packet either.
\<close>

theorem rtp_csrc_count_counterexample:
  "sent (generate True (\<lambda>i. \<lparr>tv_sec = 0, tv_usec = 0\<rparr>) ''0.0 RTP csrc1=5'' (\<lambda>i. 0))
     = Some (0, [0x80, 0, 0, 0, 0, 0, 0, 0, 0, 0, 0, 0])
   \<and> sent (generate True (\<lambda>i. \<lparr>tv_sec = 0, tv_usec = 0\<rparr>) ''0.0 RTP csrc[1]=5'' (\<lambda>i. 0))
     = Some (0, [0x81, 0, 0, 0, 0, 0, 0, 0, 0, 0, 0, 0, 0, 0, 0, 0])"
  by (simp add: sent_def generate_def clib_defs mem_defs rtp_defs Let_def)

end
